theory Spec2Isabelle
  imports Complex_Main "HOL-Library.Log_Nat"
begin

section \<open>Stream record extractor (data\_processor.py)\<close>

subsection \<open>JSON values and the decoder interface\<close>

text \<open>
  A decoded JSON document. A Python \<open>str\<close> is the list of its code points; numbers
  keep their lexeme; a \<open>dict\<close> is the association list of its items in insertion
  order. Texts handed to the extractor are \<open>string\<close>s, so their characters are the code
  points below 256; \<open>str\<close> reads such a text as a Python \<open>str\<close>.
\<close>

type_synonym unicode = "nat list"

datatype json =
    JNull
  | JBool bool
  | JNumber string
  | JString unicode
  | JArray "json list"
  | JObject "(unicode \<times> json) list"

definition str :: "string \<Rightarrow> unicode" where
  "str s = map of_char s"

text \<open>
  The two handlers of \<open>_parse_json\<close> distinguish \<open>json.JSONDecodeError\<close> from every
  other \<open>Exception\<close>. A decoder is any function from text to a raised exception or a
  value; \<open>json.loads\<close> is taken as a parameter of the extractor.
\<close>

datatype py_exception = JSONDecodeError | OtherException

type_synonym decoder = "string \<Rightarrow> py_exception + json"

subsection \<open>A model of \<open>json.loads\<close>\<close>

text \<open>
  The theorems about the extractor hold for every decoder. For concrete inputs the
  decoder is \<open>json_loads\<close>, which follows CPython's \<open>json.decoder\<close> and its scanner:
  whitespace is space, tab, line feed and carriage return; strings are strict (no
  control character, only the JSON escapes), with \<open>\uXXXX\<close> decoded and a surrogate
  pair joined; numbers follow \<open>-?(0|[1-9]\d*)(\.\d+)?([eE][-+]?\d+)?\<close>; the constants
  \<open>NaN\<close>, \<open>Infinity\<close> and \<open>-Infinity\<close> are accepted; a repeated key keeps its first
  position and its last value; text after the document is an error.
  \<open>JSONDecodeError\<close> is the error of a malformed text, \<open>OtherException\<close> stands for
  \<open>ValueError\<close> and \<open>RecursionError\<close>.
\<close>

definition is_ws :: "char \<Rightarrow> bool" where
  "is_ws c = (c = CHR '' '' \<or> c = CHR 0x09 \<or> c = CHR 0x0A \<or> c = CHR 0x0D)"

definition skip_ws :: "string \<Rightarrow> string" where
  "skip_ws s = dropWhile is_ws s"

definition is_digit :: "char \<Rightarrow> bool" where
  "is_digit c = (c \<in> set ''0123456789'')"

definition hex_digit :: "char \<Rightarrow> nat option" where
  "hex_digit c =
     (if c \<in> set ''0123456789'' then Some (of_char c - 48)
      else if c \<in> set ''abcdef'' then Some (of_char c - 87)
      else if c \<in> set ''ABCDEF'' then Some (of_char c - 55)
      else None)"

fun hex4 :: "string \<Rightarrow> nat option" where
  "hex4 (a # b # c # d # rest) =
     (case (hex_digit a, hex_digit b, hex_digit c, hex_digit d) of
        (Some w, Some x, Some y, Some z) \<Rightarrow> Some (((w * 16 + x) * 16 + y) * 16 + z)
      | _ \<Rightarrow> None)"
| "hex4 _ = None"

definition escape_char :: "char \<Rightarrow> nat option" where
  "escape_char e =
     (if e = CHR 0x22 then Some 0x22
      else if e = CHR 0x5C then Some 0x5C
      else if e = CHR ''/'' then Some 0x2F
      else if e = CHR ''b'' then Some 0x08
      else if e = CHR ''f'' then Some 0x0C
      else if e = CHR ''n'' then Some 0x0A
      else if e = CHR ''r'' then Some 0x0D
      else if e = CHR ''t'' then Some 0x09
      else None)"

fun scanstring :: "unicode \<Rightarrow> string \<Rightarrow> (unicode \<times> string) option" where
  "scanstring acc [] = None"
| "scanstring acc (c # cs) =
     (if c = CHR 0x22 then Some (acc, cs)
      else if c = CHR 0x5C then
        (case cs of
           [] \<Rightarrow> None
         | e # es \<Rightarrow>
             if e = CHR ''u'' then
               (case hex4 es of
                  None \<Rightarrow> None
                | Some u \<Rightarrow>
                    if 0xD800 \<le> u \<and> u \<le> 0xDBFF \<and> 7 \<le> length (drop 4 es)
                       \<and> take 2 (drop 4 es) = [CHR 0x5C, CHR ''u'']
                    then
                      (case hex4 (drop 6 es) of
                         None \<Rightarrow> None
                       | Some u2 \<Rightarrow>
                           if 0xDC00 \<le> u2 \<and> u2 \<le> 0xDFFF
                           then scanstring
                                  (acc @ [0x10000 + ((u - 0xD800) * 1024 + (u2 - 0xDC00))])
                                  (drop 10 es)
                           else scanstring (acc @ [u]) (drop 4 es))
                    else scanstring (acc @ [u]) (drop 4 es))
             else
               (case escape_char e of
                  None \<Rightarrow> None
                | Some n \<Rightarrow> scanstring (acc @ [n]) es))
      else if of_char c < (32 :: nat) then None
      else scanstring (acc @ [of_char c]) cs)"

definition match_number :: "string \<Rightarrow> (string \<times> bool \<times> string) option" where
  "match_number s =
     (let (sign, s1) =
            (case s of
               [] \<Rightarrow> ([], s)
             | c # cs \<Rightarrow> if c = CHR ''-'' then ([c], cs) else ([], s))
      in case s1 of
           [] \<Rightarrow> None
         | d # ds \<Rightarrow>
             if \<not> is_digit d then None
             else
               (let (ipart, s2) =
                      (if d = CHR ''0'' then ([d], ds)
                       else (takeWhile is_digit s1, dropWhile is_digit s1));
                    (frac, s3) =
                      (case s2 of
                         p # f # fs \<Rightarrow>
                           if p = CHR ''.'' \<and> is_digit f
                           then (p # takeWhile is_digit (f # fs), dropWhile is_digit (f # fs))
                           else ([], s2)
                       | _ \<Rightarrow> ([], s2));
                    (ex, s4) =
                      (case s3 of
                         x # xs \<Rightarrow>
                           if x = CHR ''e'' \<or> x = CHR ''E'' then
                             (let (sg, ys) =
                                    (case xs of
                                       [] \<Rightarrow> ([], xs)
                                     | y # ys' \<Rightarrow>
                                         if y = CHR ''+'' \<or> y = CHR ''-''
                                         then ([y], ys') else ([], xs))
                              in if takeWhile is_digit ys \<noteq> []
                                 then (x # sg @ takeWhile is_digit ys, dropWhile is_digit ys)
                                 else ([], s3))
                           else ([], s3)
                       | [] \<Rightarrow> ([], s3))
                in Some (sign @ ipart @ frac @ ex, frac = [] \<and> ex = [], s4)))"

fun match_prefix :: "string \<Rightarrow> string \<Rightarrow> string option" where
  "match_prefix [] s = Some s"
| "match_prefix (p # ps) [] = None"
| "match_prefix (p # ps) (c # cs) = (if p = c then match_prefix ps cs else None)"

fun dict_setitem :: "(unicode \<times> json) list \<Rightarrow> unicode \<Rightarrow> json \<Rightarrow> (unicode \<times> json) list" where
  "dict_setitem [] k v = [(k, v)]"
| "dict_setitem ((k', v') # kvs) k v =
     (if k' = k then (k, v) # kvs else (k', v') # dict_setitem kvs k v)"

text \<open>
  The two limits of the interpreter the decoder meets. An integer literal of more than
  \<open>sys.get_int_max_str_digits()\<close> digits (4300 unless changed) raises \<open>ValueError\<close>.
  Every array or object entered takes one level of the interpreter's recursion depth,
  and \<open>RecursionError\<close> is raised when none is left; \<open>recursion_remaining\<close> stands for
  the levels left when the scanner starts, the recursion limit (1000 unless changed)
  less the frames of the callers. No theorem about the extractor depends on either.
\<close>

definition int_max_str_digits :: nat where
  "int_max_str_digits = 4300"

definition recursion_remaining :: nat where
  "recursion_remaining = 990"

definition scan_literal :: "string \<Rightarrow> py_exception + (json \<times> string)" where
  "scan_literal s =
     (case match_prefix ''null'' s of Some r \<Rightarrow> Inr (JNull, r) | None \<Rightarrow>
      case match_prefix ''true'' s of Some r \<Rightarrow> Inr (JBool True, r) | None \<Rightarrow>
      case match_prefix ''false'' s of Some r \<Rightarrow> Inr (JBool False, r) | None \<Rightarrow>
      case match_number s of
        Some (lexeme, is_int, r) \<Rightarrow>
          if is_int \<and> int_max_str_digits < length (filter is_digit lexeme)
          then Inl OtherException
          else Inr (JNumber lexeme, r)
      | None \<Rightarrow>
      case match_prefix ''NaN'' s of Some r \<Rightarrow> Inr (JNumber ''NaN'', r) | None \<Rightarrow>
      case match_prefix ''Infinity'' s of Some r \<Rightarrow> Inr (JNumber ''Infinity'', r) | None \<Rightarrow>
      case match_prefix ''-Infinity'' s of Some r \<Rightarrow> Inr (JNumber ''-Infinity'', r) | None \<Rightarrow>
      Inl JSONDecodeError)"

text \<open>
  The scanner. The first argument bounds the number of calls, the second is the
  recursion depth left. Each call consumes a character before it calls again or is one
  of the two calls made at a position, so the bound \<open>2 * length s + 2\<close> that
  \<open>json_loads\<close> gives is not reached.
\<close>

fun scan_once :: "nat \<Rightarrow> nat \<Rightarrow> string \<Rightarrow> py_exception + (json \<times> string)"
  and JSONArray :: "nat \<Rightarrow> nat \<Rightarrow> json list \<Rightarrow> string \<Rightarrow> py_exception + (json \<times> string)"
  and JSONObject ::
    "nat \<Rightarrow> nat \<Rightarrow> (unicode \<times> json) list \<Rightarrow> string \<Rightarrow> py_exception + (json \<times> string)"
where
  "scan_once 0 depth s = Inl JSONDecodeError"
| "scan_once (Suc n) depth [] = Inl JSONDecodeError"
| "scan_once (Suc n) depth (c # cs) =
     (if c = CHR 0x22 then
        (case scanstring [] cs of
           None \<Rightarrow> Inl JSONDecodeError
         | Some (u, r) \<Rightarrow> Inr (JString u, r))
      else if c = CHR ''{'' then
        (if depth = 0 then Inl OtherException
         else
           (case skip_ws cs of
              [] \<Rightarrow> Inl JSONDecodeError
            | d # r \<Rightarrow>
                if d = CHR ''}'' then Inr (JObject [], r)
                else JSONObject n (depth - 1) [] (d # r)))
      else if c = CHR ''['' then
        (if depth = 0 then Inl OtherException
         else
           (case skip_ws cs of
              [] \<Rightarrow> Inl JSONDecodeError
            | d # r \<Rightarrow>
                if d = CHR '']'' then Inr (JArray [], r)
                else JSONArray n (depth - 1) [] (d # r)))
      else scan_literal (c # cs))"
| "JSONArray 0 depth values s = Inl JSONDecodeError"
| "JSONArray (Suc n) depth values s =
     (case scan_once n depth s of
        Inl err \<Rightarrow> Inl err
      | Inr (v, r) \<Rightarrow>
          (case skip_ws r of
             [] \<Rightarrow> Inl JSONDecodeError
           | d # r' \<Rightarrow>
               if d = CHR '']'' then Inr (JArray (values @ [v]), r')
               else if d = CHR '','' then JSONArray n depth (values @ [v]) (skip_ws r')
               else Inl JSONDecodeError))"
| "JSONObject 0 depth pairs s = Inl JSONDecodeError"
| "JSONObject (Suc n) depth pairs s =
     (case s of
        [] \<Rightarrow> Inl JSONDecodeError
      | q # r \<Rightarrow>
          if q \<noteq> CHR 0x22 then Inl JSONDecodeError
          else
            (case scanstring [] r of
               None \<Rightarrow> Inl JSONDecodeError
             | Some (key, r1) \<Rightarrow>
                 (case skip_ws r1 of
                    [] \<Rightarrow> Inl JSONDecodeError
                  | col # r2 \<Rightarrow>
                      if col \<noteq> CHR '':'' then Inl JSONDecodeError
                      else
                        (case scan_once n depth (skip_ws r2) of
                           Inl err \<Rightarrow> Inl err
                         | Inr (v, r3) \<Rightarrow>
                             (case skip_ws r3 of
                                [] \<Rightarrow> Inl JSONDecodeError
                              | d # r4 \<Rightarrow>
                                  if d = CHR ''}''
                                  then Inr (JObject (dict_setitem pairs key v), r4)
                                  else if d = CHR '',''
                                  then JSONObject n depth (dict_setitem pairs key v) (skip_ws r4)
                                  else Inl JSONDecodeError)))))"

definition json_loads :: decoder where
  "json_loads s =
     (case scan_once (2 * length s + 2) recursion_remaining (skip_ws s) of
        Inl err \<Rightarrow> Inl err
      | Inr (obj, r) \<Rightarrow> if skip_ws r = [] then Inr obj else Inl JSONDecodeError)"

subsection \<open>The pattern \<open>\{.*?\}\<close> with DOTALL\<close>

text \<open>
  \<open>JSON_PATTERN.finditer\<close>: the leftmost opening brace at or after the current
  position, then the nearest closing brace after it (the lazy \<open>.*?\<close> matches any
  character, newlines and opening braces included); the search resumes at the end of
  the match. A span is the pair of \<open>match.start()\<close> and \<open>match.end()\<close>.
  \<open>finditer_from off s\<close> searches the suffix \<open>s\<close> that starts at position \<open>off\<close>.
\<close>

lemma dropWhile_Cons_shorter: "dropWhile P s = x # t \<Longrightarrow> length t < length s"
  using length_dropWhile_le [of P s] by simp

function finditer_from :: "nat \<Rightarrow> string \<Rightarrow> (nat \<times> nat) list" where
  "finditer_from off s =
     (case dropWhile (\<lambda>c. c \<noteq> CHR ''{'') s of
        [] \<Rightarrow> []
      | _ # t \<Rightarrow>
          (case dropWhile (\<lambda>c. c \<noteq> CHR ''}'') t of
             [] \<Rightarrow> []
           | _ # r \<Rightarrow>
               (let b = off + length (takeWhile (\<lambda>c. c \<noteq> CHR ''{'') s);
                    e = b + 1 + length (takeWhile (\<lambda>c. c \<noteq> CHR ''}'') t) + 1
                in (b, e) # finditer_from e r)))"
  by pat_completeness auto
termination
  by (relation "measure (\<lambda>(off, s). length s)") (auto dest!: dropWhile_Cons_shorter)

definition finditer :: "string \<Rightarrow> (nat \<times> nat) list" where
  "finditer s = finditer_from 0 s"

text \<open>\<open>match.group()\<close>: the slice \<open>s[b:e]\<close> of the searched string.\<close>

fun group :: "string \<Rightarrow> nat \<times> nat \<Rightarrow> string" where
  "group s (b, e) = take (e - b) (drop b s)"

subsection \<open>The processor\<close>

record DataProcessor =
  buffer :: string
  total_received :: int
  total_parsed :: int
  total_invalid :: int

definition init_processor :: DataProcessor where
  "init_processor =
     \<lparr>buffer = [], total_received = 0, total_parsed = 0, total_invalid = 0\<rparr>"

text \<open>
  \<open>_parse_json\<close> (the leading underscore is dropped): the decoded value when it is a
  non-empty \<open>dict\<close>, \<open>None\<close> when it is not a \<open>dict\<close>, when it is empty, and in both
  exception handlers.
\<close>

definition parse_json :: "decoder \<Rightarrow> string \<Rightarrow> json option" where
  "parse_json loads text =
     (case loads text of
        Inr data \<Rightarrow>
          (case data of
             JObject items \<Rightarrow> (if items = [] then None else Some data)
           | _ \<Rightarrow> None)
      | Inl JSONDecodeError \<Rightarrow> None
      | Inl OtherException \<Rightarrow> None)"

text \<open>The \<open>for match in matches\<close> loop of \<open>add_chunk\<close>, over the fixed searched string.\<close>

fun for_matches ::
  "decoder \<Rightarrow> string \<Rightarrow> (nat \<times> nat) list \<Rightarrow> DataProcessor \<Rightarrow> json list
     \<Rightarrow> DataProcessor \<times> json list" where
  "for_matches loads buf [] self valid_objects = (self, valid_objects)"
| "for_matches loads buf (m # ms) self valid_objects =
     (let candidate = group buf m;
          self1 = self\<lparr>total_received := total_received self + 1\<rparr>
      in case parse_json loads candidate of
           Some parsed \<Rightarrow>
             for_matches loads buf ms
               (self1\<lparr>total_parsed := total_parsed self1 + 1\<rparr>) (valid_objects @ [parsed])
         | None \<Rightarrow>
             for_matches loads buf ms
               (self1\<lparr>total_invalid := total_invalid self1 + 1\<rparr>) valid_objects)"

definition add_chunk :: "decoder \<Rightarrow> DataProcessor \<Rightarrow> string \<Rightarrow> json list \<times> DataProcessor" where
  "add_chunk loads self text =
     (let self1 = self\<lparr>buffer := buffer self @ text\<rparr>;
          matches = finditer (buffer self1)
      in if matches \<noteq> [] then
           (let end_of_last = snd (last matches);
                remaining_buffer = drop end_of_last (buffer self1);
                (self2, valid_objects) = for_matches loads (buffer self1) matches self1 []
            in (valid_objects, self2\<lparr>buffer := remaining_buffer\<rparr>))
         else ([], self1))"

definition clear_buffer :: "DataProcessor \<Rightarrow> DataProcessor" where
  "clear_buffer self = self\<lparr>buffer := []\<rparr>"

subsection \<open>Python numbers\<close>

text \<open>
  A Python \<open>float\<close> is an IEEE 754 binary64 value; a finite one is the rational number
  it denotes. \<open>round_to_double\<close> rounds a rational to the nearest such value, ties to
  the even significand: 53 significant bits at the exponent of the argument, and the
  fixed quantum \<open>2 powi -1074\<close> in the subnormal range. \<open>float_of_exact\<close> adds the two
  ends of the range: a magnitude that rounds to \<open>2 ^ 1024\<close> or more is an infinity, a
  negative value that rounds to zero is the negative zero.
\<close>

definition floor_log2 :: "rat \<Rightarrow> int" where
  "floor_log2 x =
     (let (a, b) = quotient_of x;
          n = bitlen a - bitlen b
      in if 2 powi n \<le> x then n else n - 1)"

definition round_half_even :: "rat \<Rightarrow> int" where
  "round_half_even q =
     (let f = \<lfloor>q\<rfloor>; d = q - of_int f
      in if d < 1 / 2 then f
         else if 1 / 2 < d then f + 1
         else if even f then f else f + 1)"

definition round_to_double :: "rat \<Rightarrow> rat" where
  "round_to_double x =
     (if x = 0 then 0
      else (let e = max (floor_log2 \<bar>x\<bar> - 52) (- 1074);
                m = round_half_even (\<bar>x\<bar> / 2 powi e)
            in sgn x * of_int m * 2 powi e))"


datatype py_float = Finite rat | NegZero | PosInf | NegInf | NaN

datatype arith_error = ZeroDivisionError | OverflowError

definition float_of_exact :: "rat \<Rightarrow> py_float" where
  "float_of_exact x =
     (let r = round_to_double x
      in if 2 ^ 1024 \<le> \<bar>r\<bar> then (if 0 < x then PosInf else NegInf)
         else if r = 0 \<and> x < 0 then NegZero
         else Finite r)"

text \<open>
  \<open>int / int\<close>, Python's true division of two integers: the exact quotient, correctly
  rounded; \<open>ZeroDivisionError\<close> on a zero divisor, \<open>OverflowError\<close> when the result is
  too large for a \<open>float\<close>. \<open>float * float\<close> never raises.
\<close>

definition int_truediv :: "int \<Rightarrow> int \<Rightarrow> arith_error + py_float" where
  "int_truediv a b =
     (if b = 0 then Inl ZeroDivisionError
      else if a = 0 then Inr (if b < 0 then NegZero else Finite 0)
      else (case float_of_exact (of_int a / of_int b) of
              PosInf \<Rightarrow> Inl OverflowError
            | NegInf \<Rightarrow> Inl OverflowError
            | q \<Rightarrow> Inr q))"

fun float_negative :: "py_float \<Rightarrow> bool" where
  "float_negative (Finite r) = (r < 0)"
| "float_negative NegZero = True"
| "float_negative NegInf = True"
| "float_negative PosInf = False"
| "float_negative NaN = False"

fun float_mul :: "py_float \<Rightarrow> py_float \<Rightarrow> py_float" where
  "float_mul NaN y = NaN"
| "float_mul x NaN = NaN"
| "float_mul (Finite a) (Finite b) =
     (if a = 0 \<or> b = 0 then (if (a < 0) \<noteq> (b < 0) then NegZero else Finite 0)
      else float_of_exact (a * b))"
| "float_mul (Finite a) NegZero = (if a < 0 then Finite 0 else NegZero)"
| "float_mul NegZero (Finite b) = (if b < 0 then Finite 0 else NegZero)"
| "float_mul NegZero NegZero = Finite 0"
| "float_mul x y =
     (if x = Finite 0 \<or> x = NegZero \<or> y = Finite 0 \<or> y = NegZero then NaN
      else if float_negative x \<noteq> float_negative y then NegInf else PosInf)"

datatype py_number = PyInt int | PyFloat py_float

text \<open>
  \<open>get_stats\<close> builds a dictionary and assigns no attribute; the model returns the
  dictionary, or the error the division raises, together with the processor it leaves
  behind. \<open>parse_rate\<close> is the \<open>float\<close> \<open>total_parsed / total_received * 100\<close>, the
  integer 100 converted to \<open>100.0\<close>, or the \<open>int\<close> 0.
\<close>

record processor_stats =
  stat_total_received :: int
  stat_total_parsed :: int
  stat_total_invalid :: int
  stat_parse_rate :: py_number
  stat_buffer_size :: nat

definition get_stats :: "DataProcessor \<Rightarrow> (arith_error + processor_stats) \<times> DataProcessor" where
  "get_stats self =
     (case (if total_received self > 0
            then (case int_truediv (total_parsed self) (total_received self) of
                    Inl err \<Rightarrow> Inl err
                  | Inr q \<Rightarrow> Inr (PyFloat (float_mul q (Finite 100))))
            else Inr (PyInt 0)) of
        Inl err \<Rightarrow> (Inl err, self)
      | Inr rate \<Rightarrow>
          (Inr \<lparr>stat_total_received = total_received self,
                stat_total_parsed = total_parsed self,
                stat_total_invalid = total_invalid self,
                stat_parse_rate = rate,
                stat_buffer_size = length (buffer self)\<rparr>, self))"

subsection \<open>Candidate texts and the retained suffix\<close>

text \<open>
  The same search read on the text alone: the candidate texts in order, and what is
  left after the last of them (the whole text when there is none).
\<close>

function scan_buffer :: "string \<Rightarrow> string list \<times> string" where
  "scan_buffer s =
     (case dropWhile (\<lambda>c. c \<noteq> CHR ''{'') s of
        [] \<Rightarrow> ([], s)
      | _ # t \<Rightarrow>
          (case dropWhile (\<lambda>c. c \<noteq> CHR ''}'') t of
             [] \<Rightarrow> ([], s)
           | _ # r \<Rightarrow>
               ((CHR ''{'' # takeWhile (\<lambda>c. c \<noteq> CHR ''}'') t @ [CHR ''}'']) # fst (scan_buffer r),
                snd (scan_buffer r))))"
  by pat_completeness auto
termination
  by (relation "measure length") (auto dest!: dropWhile_Cons_shorter)


text \<open>A sequence of \<open>add_chunk\<close> calls, the returned lists concatenated.\<close>

fun feed :: "decoder \<Rightarrow> DataProcessor \<Rightarrow> string list \<Rightarrow> json list \<times> DataProcessor" where
  "feed loads self [] = ([], self)"
| "feed loads self (text # texts) =
     (let (out, self1) = add_chunk loads self text;
          (outs, self2) = feed loads self1 texts
      in (out @ outs, self2))"

subsection \<open>Vocabulary of the claims about the extractor\<close>

text \<open>
  Text without brace characters; an object text that opens with a brace and whose only
  closing brace is its last character; a candidate that decodes to a \<open>dict\<close> with at
  least one key; an input made of a leading text and objects, each followed by a
  separator.
\<close>

definition brace_free :: "string \<Rightarrow> bool" where
  "brace_free s = (CHR ''{'' \<notin> set s \<and> CHR ''}'' \<notin> set s)"

definition closes_at_end :: "string \<Rightarrow> bool" where
  "closes_at_end obj =
     (case obj of
        [] \<Rightarrow> False
      | c # cs \<Rightarrow>
          c = CHR ''{'' \<and> cs \<noteq> [] \<and> last cs = CHR ''}'' \<and> CHR ''}'' \<notin> set (butlast cs))"

definition accepted :: "decoder \<Rightarrow> string \<Rightarrow> bool" where
  "accepted loads c =
     (case loads c of
        Inr (JObject items) \<Rightarrow> items \<noteq> []
      | _ \<Rightarrow> False)"

definition layout :: "string \<Rightarrow> (string \<times> string) list \<Rightarrow> string" where
  "layout pre items = pre @ concat (map (\<lambda>(obj, sep). obj @ sep) items)"

section \<open>Telemetry sink client (thingsboard\_client.py)\<close>

text \<open>
  What leaves a call: \<open>KeyboardInterrupt\<close>, which no \<open>except Exception\<close> clause
  catches, or an exception of class \<open>Exception\<close>.
\<close>

datatype raised = KeyboardInterrupt | Exception

text \<open>
  What \<open>requests.post\<close> does at one call: it returns a response with a status code,
  it raises an exception of class \<open>Exception\<close>, or the user interrupts it.
  \<open>ConnectTimeout\<close> is both a \<open>Timeout\<close> and a \<open>ConnectionError\<close> of the \<open>requests\<close>
  hierarchy, so the order of the handlers decides its branch.
\<close>

datatype post_exception = ReadTimeout | ConnectTimeout | ConnectionError | UnexpectedError

datatype http_outcome = Response nat | Raises post_exception | Interrupted

type_synonym http_post = "string \<Rightarrow> json \<Rightarrow> int \<Rightarrow> http_outcome"

definition is_Timeout :: "post_exception \<Rightarrow> bool" where
  "is_Timeout e = (e = ReadTimeout \<or> e = ConnectTimeout)"

definition is_ConnectionError :: "post_exception \<Rightarrow> bool" where
  "is_ConnectionError e = (e = ConnectTimeout \<or> e = ConnectionError)"

text \<open>
  \<open>Response.ok\<close> of the \<open>requests\<close> library: true unless \<open>raise_for_status\<close> raises,
  which it does for the status codes from 400 up to 599.
\<close>

definition response_ok :: "nat \<Rightarrow> bool" where
  "response_ok status_code = (\<not> (400 \<le> status_code \<and> status_code < 600))"

text \<open>A \<open>datetime\<close> is its count of microseconds.\<close>

type_synonym datetime = nat

record ThingsBoardClient =
  host :: string
  token :: string
  use_https :: bool
  scheme :: string
  base_url :: string
  telemetry_url :: string
  total_sent :: int
  total_failed :: int
  last_send_time :: "datetime option"

definition new_client :: "string \<Rightarrow> string \<Rightarrow> bool \<Rightarrow> ThingsBoardClient" where
  "new_client h t https =
     (let sch = (if https then ''https'' else ''http'');
          base = sch @ ''://'' @ h
      in \<lparr>host = h, token = t, use_https = https, scheme = sch, base_url = base,
          telemetry_url = base @ ''/api/v1/'' @ t @ ''/telemetry'',
          total_sent = 0, total_failed = 0, last_send_time = None\<rparr>)"

text \<open>The line each call logs, by its handler (the text of the message is left out).\<close>

datatype send_log =
    LogSent
  | LogThingsBoardError nat
  | LogTimeout
  | LogConnectionError
  | LogUnexpected

text \<open>
  \<open>send_telemetry\<close>: \<open>post\<close> is the network at this call, \<open>now\<close> the value of
  \<open>datetime.now()\<close> read after the response has arrived. The result is the interrupt
  that left the call, or the returned boolean, the logged line and the client
  afterwards.
\<close>

definition send_telemetry ::
  "ThingsBoardClient \<Rightarrow> http_post \<Rightarrow> json \<Rightarrow> int \<Rightarrow> datetime
     \<Rightarrow> raised + (bool \<times> send_log \<times> ThingsBoardClient)" where
  "send_telemetry self post data timeout now =
     (case post (telemetry_url self) data timeout of
        Response status_code \<Rightarrow>
          (let self1 = self\<lparr>last_send_time := Some now\<rparr>
           in if response_ok status_code
              then Inr (True, LogSent, self1\<lparr>total_sent := total_sent self1 + 1\<rparr>)
              else Inr (False, LogThingsBoardError status_code,
                        self1\<lparr>total_failed := total_failed self1 + 1\<rparr>))
      | Raises e \<Rightarrow>
          if is_Timeout e
          then Inr (False, LogTimeout, self\<lparr>total_failed := total_failed self + 1\<rparr>)
          else if is_ConnectionError e
          then Inr (False, LogConnectionError, self\<lparr>total_failed := total_failed self + 1\<rparr>)
          else Inr (False, LogUnexpected, self\<lparr>total_failed := total_failed self + 1\<rparr>)
      | Interrupted \<Rightarrow> Inl KeyboardInterrupt)"

text \<open>The client a call leaves behind: unchanged when the call was interrupted.\<close>

definition client_after ::
  "ThingsBoardClient \<Rightarrow> raised + (bool \<times> send_log \<times> ThingsBoardClient) \<Rightarrow> ThingsBoardClient" where
  "client_after self result = (case result of Inl r \<Rightarrow> self | Inr (ok, lg, cl) \<Rightarrow> cl)"

text \<open>The boolean a call returns, if it returns.\<close>

definition returned :: "raised + (bool \<times> send_log \<times> ThingsBoardClient) \<Rightarrow> bool option" where
  "returned result = (case result of Inl r \<Rightarrow> None | Inr (ok, lg, cl) \<Rightarrow> Some ok)"

section \<open>Rate limiter (main.py)\<close>

text \<open>
  The limiter computes with the platform's \<open>float\<close>s: the type \<open>'f\<close>, its subtraction
  and its test \<open>x > 0\<close> are parameters. \<open>wait_if_needed\<close> reads the clock twice, \<open>now\<close> on
  entry and \<open>finish\<close> before it returns; \<open>sleep\<close> is \<open>time.sleep\<close> at this call, which
  returns or is left by an exception. The result is what was raised, if anything, and
  the limiter afterwards.
\<close>

record 'f platform =
  float_sub :: "'f \<Rightarrow> 'f \<Rightarrow> 'f"
  float_positive :: "'f \<Rightarrow> bool"

record 'f RateLimiter =
  min_interval :: 'f
  limiter_last_send_time :: 'f

definition wait_if_needed ::
  "'f platform \<Rightarrow> 'f RateLimiter \<Rightarrow> 'f \<Rightarrow> ('f \<Rightarrow> raised option) \<Rightarrow> 'f
     \<Rightarrow> raised option \<times> 'f RateLimiter" where
  "wait_if_needed pf self now sleep finish =
     (let elapsed = float_sub pf now (limiter_last_send_time self);
          wait_time = float_sub pf (min_interval self) elapsed
      in if float_positive pf wait_time then
           (case sleep wait_time of
              Some r \<Rightarrow> (Some r, self)
            | None \<Rightarrow> (None, self\<lparr>limiter_last_send_time := finish\<rparr>))
         else (None, self\<lparr>limiter_last_send_time := finish\<rparr>))"

text \<open>
  Binary64 on finite values, for the concrete runs: a time is the rational a double
  denotes.
\<close>

definition double_platform :: "rat platform" where
  "double_platform =
     \<lparr>float_sub = (\<lambda>a b. round_to_double (a - b)), float_positive = (\<lambda>x. 0 < x)\<rparr>"

section \<open>Serial monitor (browser\_automation.py)\<close>

text \<open>
  \<open>get_new_content\<close>: \<open>full_text\<close> is what \<open>read_serial_output\<close> returned, \<open>None\<close>
  included (that function catches its own errors).
\<close>

record SerialMonitor =
  last_text_length :: nat
  total_reads :: int

definition new_monitor :: SerialMonitor where
  "new_monitor = \<lparr>last_text_length = 0, total_reads = 0\<rparr>"

definition get_new_content :: "SerialMonitor \<Rightarrow> string option \<Rightarrow> string \<times> SerialMonitor" where
  "get_new_content self full_text =
     (case full_text of
        None \<Rightarrow> ([], self)
      | Some txt \<Rightarrow>
          (let self1 = self\<lparr>total_reads := total_reads self + 1\<rparr>;
               current_length = length txt;
               self2 = (if current_length < last_text_length self1
                        then self1\<lparr>last_text_length := 0\<rparr> else self1);
               new_content = drop (last_text_length self2) txt
           in (new_content, self2\<lparr>last_text_length := current_length\<rparr>)))"

section \<open>The monitoring loop of \<open>run_bridge\<close> (main.py)\<close>

text \<open>
  The environment of one pass of \<open>for data in json_objects\<close>: the two clock readings
  and the sleep of the limiter, what the preview \<open>print\<close> does, the network, the time
  the response arrives, and what the \<open>print\<close> of the outcome does. \<open>add_chunk\<close> and
  \<open>get_new_content\<close> raise nothing themselves; an interrupt is modelled where the loop
  blocks: in the sleeps, in the request and in the prints.
\<close>

record 'f send_env =
  clock_start :: 'f
  throttle_sleep :: "'f \<Rightarrow> raised option"
  clock_finish :: 'f
  preview_print :: "raised option"
  post_call :: http_post
  response_time :: datetime
  result_print :: "raised option"

record 'f tick_env =
  serial_output :: "string option"
  send_envs :: "nat \<Rightarrow> 'f send_env"
  poll_sleep :: "raised option"

record 'f Bridge =
  data_processor :: DataProcessor
  tb_client :: ThingsBoardClient
  rate_limiter :: "'f RateLimiter"
  serial_monitor :: SerialMonitor
  message_count :: int

text \<open>
  The loop \<open>for data in json_objects\<close>; \<open>k\<close> counts the records of the tick. The
  result is what was raised, if anything, and the state reached.
\<close>

fun for_json_objects ::
  "'f platform \<Rightarrow> bool \<Rightarrow> (nat \<Rightarrow> 'f send_env) \<Rightarrow> nat \<Rightarrow> json list \<Rightarrow> 'f Bridge
     \<Rightarrow> raised option \<times> 'f Bridge" where
  "for_json_objects pf print_preview envs k [] b = (None, b)"
| "for_json_objects pf print_preview envs k (data # rest) b =
     (let env = envs k
      in case wait_if_needed pf (rate_limiter b) (clock_start env) (throttle_sleep env)
                (clock_finish env) of
           (Some r, rl) \<Rightarrow> (Some r, b\<lparr>rate_limiter := rl\<rparr>)
         | (None, rl) \<Rightarrow>
             (let b1 = b\<lparr>rate_limiter := rl\<rparr>
              in case (if print_preview then preview_print env else None) of
                   Some r \<Rightarrow> (Some r, b1)
                 | None \<Rightarrow>
                     (case send_telemetry (tb_client b1) (post_call env) data 8
                             (response_time env) of
                        Inl r \<Rightarrow> (Some r, b1)
                      | Inr (success, lg, cl) \<Rightarrow>
                          (let b2 = b1\<lparr>tb_client := cl\<rparr>;
                               b3 = (if success
                                     then b2\<lparr>message_count := message_count b2 + 1\<rparr>
                                     else b2)
                           in case result_print env of
                                Some r \<Rightarrow> (Some r, b3)
                              | None \<Rightarrow>
                                  for_json_objects pf print_preview envs (Suc k) rest b3))))"

text \<open>One iteration of \<open>while True\<close>.\<close>

definition tick ::
  "decoder \<Rightarrow> 'f platform \<Rightarrow> bool \<Rightarrow> 'f tick_env \<Rightarrow> 'f Bridge \<Rightarrow> raised option \<times> 'f Bridge" where
  "tick loads pf print_preview env b =
     (let (new_content, sm) = get_new_content (serial_monitor b) (serial_output env);
          b1 = b\<lparr>serial_monitor := sm\<rparr>;
          (r, b2) =
            (if new_content \<noteq> [] then
               (let (json_objects, dp) = add_chunk loads (data_processor b1) new_content
                in for_json_objects pf print_preview (send_envs env) 0 json_objects
                     (b1\<lparr>data_processor := dp\<rparr>))
             else (None, b1))
      in case r of Some x \<Rightarrow> (Some x, b2) | None \<Rightarrow> (poll_sleep env, b2))"

text \<open>
  The \<open>try\<close> statement around the loop, over the ticks the environment provides:
  still in the loop after them, or left through the \<open>KeyboardInterrupt\<close> handler, or
  left through the \<open>except Exception\<close> handler, which logs the error. Both handlers
  fall through to the cleanup and to \<open>return True\<close>.
\<close>

datatype 'f loop_state = STREAMING "'f Bridge" | STOPPED "'f Bridge" | ERROR_LOGGED "'f Bridge"

fun while_True ::
  "decoder \<Rightarrow> 'f platform \<Rightarrow> bool \<Rightarrow> 'f tick_env list \<Rightarrow> 'f Bridge \<Rightarrow> 'f loop_state" where
  "while_True loads pf print_preview [] b = STREAMING b"
| "while_True loads pf print_preview (env # envs) b =
     (case tick loads pf print_preview env b of
        (None, b') \<Rightarrow> while_True loads pf print_preview envs b'
      | (Some KeyboardInterrupt, b') \<Rightarrow> STOPPED b'
      | (Some Exception, b') \<Rightarrow> ERROR_LOGGED b')"

fun bridge_of :: "'f loop_state \<Rightarrow> 'f Bridge" where
  "bridge_of (STREAMING b) = b"
| "bridge_of (STOPPED b) = b"
| "bridge_of (ERROR_LOGGED b) = b"

fun still_streaming :: "'f loop_state \<Rightarrow> bool" where
  "still_streaming (STREAMING b) = True"
| "still_streaming (STOPPED b) = False"
| "still_streaming (ERROR_LOGGED b) = False"

definition run_bridge_returns :: "'f loop_state \<Rightarrow> bool option" where
  "run_bridge_returns st =
     (case st of STREAMING b \<Rightarrow> None | STOPPED b \<Rightarrow> Some True | ERROR_LOGGED b \<Rightarrow> Some True)"

text \<open>
  A bridge whose limiter allows five messages a second and last finished at time
  1000, for the concrete runs; the interval is the double nearest to 0.2.
\<close>

definition example_bridge :: "rat Bridge" where
  "example_bridge =
     \<lparr>data_processor = init_processor,
      tb_client = new_client ''eu.thingsboard.cloud'' ''token'' True,
      rate_limiter =
        \<lparr>min_interval = 3602879701896397 / 18014398509481984, limiter_last_send_time = 1000\<rparr>,
      serial_monitor = new_monitor,
      message_count = 0\<rparr>"

text \<open>An environment in which nothing fails and the server answers with a given status.\<close>

definition quiet_send :: "nat \<Rightarrow> rat send_env" where
  "quiet_send status_code =
     \<lparr>clock_start = 1001, throttle_sleep = (\<lambda>d. None), clock_finish = 1001,
      preview_print = None, post_call = (\<lambda>url data timeout. Response status_code),
      response_time = 1001000000, result_print = None\<rparr>"

text \<open>
  Four ticks for the concrete runs: one whose \<open>print\<close> of the outcome raises, the tick
  that would follow it, one that ends inside a record, and one after the simulation
  was reset (its text is shorter than the text before).
\<close>

definition failing_print_tick :: "rat tick_env" where
  "failing_print_tick =
     \<lparr>serial_output = Some ''{\"a\":1}'',
      send_envs = (\<lambda>k. (quiet_send 200)\<lparr>result_print := Some Exception\<rparr>),
      poll_sleep = None\<rparr>"

definition next_tick :: "rat tick_env" where
  "next_tick =
     \<lparr>serial_output = Some ''{\"a\":1}{\"b\":2}'',
      send_envs = (\<lambda>k. quiet_send 200),
      poll_sleep = None\<rparr>"

definition partial_record_tick :: "rat tick_env" where
  "partial_record_tick =
     \<lparr>serial_output = Some ''boot {\"a\":'',
      send_envs = (\<lambda>k. quiet_send 200),
      poll_sleep = None\<rparr>"

definition after_reset_tick :: "rat tick_env" where
  "after_reset_tick =
     \<lparr>serial_output = Some ''{\"b\":2}'',
      send_envs = (\<lambda>k. quiet_send 200),
      poll_sleep = None\<rparr>"

section \<open>Properties of the extractor\<close>

declare scan_buffer.simps [simp del]
declare finditer_from.simps [simp del]

lemma dropWhile_split:
  "dropWhile P s = x # t \<Longrightarrow> s = takeWhile P s @ x # t \<and> \<not> P x"
  by (metis takeWhile_dropWhile_id hd_dropWhile list.sel(1) list.distinct(1))



lemma finditer_from_no_open:
  "dropWhile (\<lambda>c. c \<noteq> CHR ''{'') s = [] \<Longrightarrow> finditer_from off s = []"
  by (subst finditer_from.simps) (simp only: list.case)

lemma finditer_from_no_close:
  "dropWhile (\<lambda>c. c \<noteq> CHR ''{'') s = x # t \<Longrightarrow> dropWhile (\<lambda>c. c \<noteq> CHR ''}'') t = []
     \<Longrightarrow> finditer_from off s = []"
  by (subst finditer_from.simps) (simp only: list.case)

lemma finditer_from_match:
  "dropWhile (\<lambda>c. c \<noteq> CHR ''{'') s = x # t \<Longrightarrow> dropWhile (\<lambda>c. c \<noteq> CHR ''}'') t = y # r
     \<Longrightarrow> finditer_from off s =
         (off + length (takeWhile (\<lambda>c. c \<noteq> CHR ''{'') s),
          off + length (takeWhile (\<lambda>c. c \<noteq> CHR ''{'') s) + 1
              + length (takeWhile (\<lambda>c. c \<noteq> CHR ''}'') t) + 1)
         # finditer_from (off + length (takeWhile (\<lambda>c. c \<noteq> CHR ''{'') s) + 1
              + length (takeWhile (\<lambda>c. c \<noteq> CHR ''}'') t) + 1) r"
  by (subst finditer_from.simps) (simp only: list.case Let_def)

lemma scan_buffer_no_open:
  "dropWhile (\<lambda>c. c \<noteq> CHR ''{'') s = [] \<Longrightarrow> scan_buffer s = ([], s)"
  by (subst scan_buffer.simps) (simp only: list.case)

lemma scan_buffer_no_close:
  "dropWhile (\<lambda>c. c \<noteq> CHR ''{'') s = x # t \<Longrightarrow> dropWhile (\<lambda>c. c \<noteq> CHR ''}'') t = []
     \<Longrightarrow> scan_buffer s = ([], s)"
  by (subst scan_buffer.simps) (simp only: list.case)

lemma scan_buffer_match:
  "dropWhile (\<lambda>c. c \<noteq> CHR ''{'') s = x # t \<Longrightarrow> dropWhile (\<lambda>c. c \<noteq> CHR ''}'') t = y # r
     \<Longrightarrow> scan_buffer s =
         ((CHR ''{'' # takeWhile (\<lambda>c. c \<noteq> CHR ''}'') t @ [CHR ''}'']) # fst (scan_buffer r),
          snd (scan_buffer r))"
  by (subst scan_buffer.simps) (simp only: list.case)

lemma take_Suc_takeWhile:
  "dropWhile P t = y # r \<Longrightarrow> take (Suc (length (takeWhile P t))) t = takeWhile P t @ [y]"
  by (induction t) (auto split: if_splits)

lemma hd_dropWhile_Cons: "dropWhile P s = x # t \<Longrightarrow> \<not> P x"
  using hd_dropWhile [of P s] by auto

lemma finditer_from_extract:
  "drop off whole = s \<Longrightarrow>
     map (group whole) (finditer_from off s) = fst (scan_buffer s)
     \<and> (if finditer_from off s = [] then snd (scan_buffer s) = s
        else drop (snd (last (finditer_from off s))) whole = snd (scan_buffer s))"
proof (induction off s rule: finditer_from.induct)
  case (1 off s)
  show ?case
  proof (cases "dropWhile (\<lambda>c. c \<noteq> CHR ''{'') s")
    case Nil
    then show ?thesis
      by (simp add: finditer_from_no_open scan_buffer_no_open del: dropWhile_eq_Nil_conv)
  next
    case (Cons x t)
    note c1 = Cons
    show ?thesis
    proof (cases "dropWhile (\<lambda>c. c \<noteq> CHR ''}'') t")
      case Nil
      then show ?thesis using c1
        by (simp add: finditer_from_no_close scan_buffer_no_close del: dropWhile_eq_Nil_conv)
    next
      case (Cons y r)
      define n1 where "n1 = length (takeWhile (\<lambda>c. c \<noteq> CHR ''{'') s)"
      define n2 where "n2 = length (takeWhile (\<lambda>c. c \<noteq> CHR ''}'') t)"
      define b where "b = off + n1"
      define e where "e = b + 1 + n2 + 1"
      have x: "x = CHR ''{''" using hd_dropWhile_Cons [OF c1] by simp
      have y: "y = CHR ''}''" using hd_dropWhile_Cons [OF Cons] by simp
      have fi: "finditer_from off s = (b, e) # finditer_from e r"
        using finditer_from_match [OF c1 Cons, of off] by (simp add: b_def e_def n1_def n2_def)
      have ex: "scan_buffer s =
          ((CHR ''{'' # takeWhile (\<lambda>c. c \<noteq> CHR ''}'') t @ [CHR ''}'']) # fst (scan_buffer r),
           snd (scan_buffer r))"
        using scan_buffer_match [OF c1 Cons] by simp
      have "drop b whole = drop n1 (drop off whole)"
        by (simp add: b_def add.commute)
      also have "\<dots> = dropWhile (\<lambda>c. c \<noteq> CHR ''{'') s"
        using "1.prems" by (simp add: n1_def dropWhile_eq_drop [symmetric])
      finally have db: "drop b whole = x # t" using c1 by simp
      have "drop e whole = drop 1 (drop n2 (drop 1 (drop b whole)))"
        by (simp add: e_def add.commute add.left_commute)
      also have "\<dots> = drop 1 (drop n2 t)" using db by simp
      also have "drop n2 t = dropWhile (\<lambda>c. c \<noteq> CHR ''}'') t"
        by (simp add: n2_def dropWhile_eq_drop [symmetric])
      finally have de: "drop e whole = r" using Cons by simp
      have "group whole (b, e) = take (Suc (Suc n2)) (drop b whole)"
        by (simp add: e_def)
      also have "\<dots> = x # take (Suc n2) t" using db by simp
      also have "take (Suc n2) t = takeWhile (\<lambda>c. c \<noteq> CHR ''}'') t @ [y]"
        unfolding n2_def using Cons by (rule take_Suc_takeWhile)
      finally have g: "group whole (b, e) = CHR ''{'' # takeWhile (\<lambda>c. c \<noteq> CHR ''}'') t @ [CHR ''}'']"
        using x y by simp
      have ih: "map (group whole) (finditer_from e r) = fst (scan_buffer r)
        \<and> (if finditer_from e r = [] then snd (scan_buffer r) = r
        else drop (snd (last (finditer_from e r))) whole = snd (scan_buffer r))"
        unfolding e_def b_def n1_def n2_def
        by (rule "1.IH" [OF c1 Cons refl refl]) (rule de [unfolded e_def b_def n1_def n2_def])
      show ?thesis
        unfolding fi ex using g ih de by (simp del: group.simps)
    qed
  qed
qed

lemma for_matches_char:
  "for_matches loads buf ms self valid =
     (self\<lparr>total_received := total_received self + int (length ms),
           total_parsed := total_parsed self
              + int (length (List.map_filter (parse_json loads) (map (group buf) ms))),
           total_invalid := total_invalid self + int (length ms)
              - int (length (List.map_filter (parse_json loads) (map (group buf) ms)))\<rparr>,
      valid @ List.map_filter (parse_json loads) (map (group buf) ms))"
proof (induction ms arbitrary: self valid)
  case Nil
  then show ?case by (simp add: map_filter_simps)
next
  case (Cons m ms)
  show ?case
  proof (cases "parse_json loads (group buf m)")
    case None
    then show ?thesis
      by (simp add: Cons.IH map_filter_simps Let_def del: group.simps)
  next
    case (Some d)
    then show ?thesis
      by (simp add: Cons.IH map_filter_simps Let_def del: group.simps)
  qed
qed

lemma add_chunk_char:
  "add_chunk loads self text =
     (List.map_filter (parse_json loads) (fst (scan_buffer (buffer self @ text))),
      self\<lparr>buffer := snd (scan_buffer (buffer self @ text)),
           total_received := total_received self
              + int (length (fst (scan_buffer (buffer self @ text)))),
           total_parsed := total_parsed self
              + int (length (List.map_filter (parse_json loads)
                     (fst (scan_buffer (buffer self @ text))))),
           total_invalid := total_invalid self
              + int (length (fst (scan_buffer (buffer self @ text))))
              - int (length (List.map_filter (parse_json loads)
                     (fst (scan_buffer (buffer self @ text)))))\<rparr>)"
proof -
  let ?s = "buffer self @ text"
  note link = finditer_from_extract [of 0 ?s ?s, simplified, folded finditer_def]
  show ?thesis
  proof (cases "finditer ?s = []")
    case True
    with link have "fst (scan_buffer ?s) = []" "snd (scan_buffer ?s) = ?s" by auto
    with True show ?thesis
      by (simp add: add_chunk_def map_filter_simps)
  next
    case False
    define ms where "ms = finditer ?s"
    define rest where "rest = drop (snd (last ms)) ?s"
    from False link have m: "map (group ?s) ms = fst (scan_buffer ?s)"
      and r: "rest = snd (scan_buffer ?s)"
      unfolding ms_def rest_def by (simp_all del: group.simps drop_append)
    from m have l: "length ms = length (fst (scan_buffer ?s))"
      by (metis length_map)
    have "add_chunk loads self text =
       (snd (for_matches loads ?s ms (self\<lparr>buffer := ?s\<rparr>) []),
        (fst (for_matches loads ?s ms (self\<lparr>buffer := ?s\<rparr>) []))\<lparr>buffer := rest\<rparr>)"
      using False unfolding add_chunk_def ms_def rest_def
      by (simp add: Let_def case_prod_beta del: drop_append)
    then show ?thesis
      unfolding for_matches_char m l r by simp
  qed
qed

lemma dropWhile_append_Cons:
  "dropWhile P s = x # t \<Longrightarrow> dropWhile P (s @ b) = x # (t @ b)"
  by (induction s) (auto split: if_splits)

lemma takeWhile_append_Cons:
  "dropWhile P s = x # t \<Longrightarrow> takeWhile P (s @ b) = takeWhile P s"
  by (induction s) (auto split: if_splits)

lemma scan_buffer_append:
  "scan_buffer (a @ b) =
     (fst (scan_buffer a) @ fst (scan_buffer (snd (scan_buffer a) @ b)),
      snd (scan_buffer (snd (scan_buffer a) @ b)))"
proof (induction a rule: scan_buffer.induct)
  case (1 s)
  show ?case
  proof (cases "dropWhile (\<lambda>c. c \<noteq> CHR ''{'') s")
    case Nil
    then show ?thesis by (simp add: scan_buffer_no_open del: dropWhile_eq_Nil_conv)
  next
    case (Cons x t)
    note c1 = Cons
    show ?thesis
    proof (cases "dropWhile (\<lambda>c. c \<noteq> CHR ''}'') t")
      case Nil
      then show ?thesis using c1 by (simp add: scan_buffer_no_close del: dropWhile_eq_Nil_conv)
    next
      case (Cons y r)
      have d1: "dropWhile (\<lambda>c. c \<noteq> CHR ''{'') (s @ b) = x # (t @ b)"
        using c1 by (rule dropWhile_append_Cons)
      have d2: "dropWhile (\<lambda>c. c \<noteq> CHR ''}'') (t @ b) = y # (r @ b)"
        using Cons by (rule dropWhile_append_Cons)
      have t2: "takeWhile (\<lambda>c. c \<noteq> CHR ''}'') (t @ b) = takeWhile (\<lambda>c. c \<noteq> CHR ''}'') t"
        using Cons by (rule takeWhile_append_Cons)
      show ?thesis
        using scan_buffer_match [OF d1 d2] scan_buffer_match [OF c1 Cons] t2 1 [OF c1 Cons]
        by simp
    qed
  qed
qed

lemma finditer_scan_buffer:
  "map (group s) (finditer s) = fst (scan_buffer s)"
  using finditer_from_extract [of 0 s s] by (simp add: finditer_def)

lemma finditer_Nil_iff: "finditer s = [] \<longleftrightarrow> fst (scan_buffer s) = []"
  using finditer_scan_buffer [of s] by (metis map_is_Nil_conv)

lemma scan_buffer_rest:
  "snd (scan_buffer s) = (if finditer s = [] then s else drop (snd (last (finditer s))) s)"
  using finditer_from_extract [of 0 s s] by (simp add: finditer_def split: if_splits)

lemma scan_buffer_idem: "fst (scan_buffer (snd (scan_buffer s))) = []"
proof (induction s rule: scan_buffer.induct)
  case (1 s)
  show ?case
  proof (cases "dropWhile (\<lambda>c. c \<noteq> CHR ''{'') s")
    case Nil
    then show ?thesis by (simp add: scan_buffer_no_open del: dropWhile_eq_Nil_conv)
  next
    case (Cons x t)
    note c1 = Cons
    show ?thesis
    proof (cases "dropWhile (\<lambda>c. c \<noteq> CHR ''}'') t")
      case Nil
      then show ?thesis using c1 by (simp add: scan_buffer_no_close del: dropWhile_eq_Nil_conv)
    next
      case (Cons y r)
      show ?thesis
        using scan_buffer_match [OF c1 Cons] 1 [OF c1 Cons] by simp
    qed
  qed
qed

lemma scan_buffer_brace_free: "brace_free s \<Longrightarrow> scan_buffer s = ([], s)"
  by (rule scan_buffer_no_open) (auto simp: brace_free_def)

lemma dropWhile_skip: "x \<notin> set pre \<Longrightarrow> dropWhile (\<lambda>c. c \<noteq> x) (pre @ x # t) = x # t"
  by (induction pre) auto

lemma takeWhile_skip: "x \<notin> set pre \<Longrightarrow> takeWhile (\<lambda>c. c \<noteq> x) (pre @ x # t) = pre"
  by (induction pre) auto

lemma closes_at_endD:
  "\<exists>body. obj = CHR ''{'' # body @ [CHR ''}''] \<and> CHR ''}'' \<notin> set body"
  if "closes_at_end obj"
proof (cases obj)
  case Nil
  then show ?thesis using that by (simp add: closes_at_end_def)
next
  case (Cons c cs)
  with that have c: "c = CHR ''{''" and ne: "cs \<noteq> []" and l: "last cs = CHR ''}''"
    and bf: "CHR ''}'' \<notin> set (butlast cs)" by (simp_all add: closes_at_end_def)
  from ne l have "cs = butlast cs @ [CHR ''}'']"
    using append_butlast_last_id [of cs] by simp
  with Cons c bf show ?thesis by blast
qed

lemma scan_buffer_object:
  assumes "CHR ''{'' \<notin> set pre" "CHR ''}'' \<notin> set body"
  shows "scan_buffer (pre @ (CHR ''{'' # body @ [CHR ''}'']) @ r) =
           ((CHR ''{'' # body @ [CHR ''}'']) # fst (scan_buffer r), snd (scan_buffer r))"
proof -
  have d1: "dropWhile (\<lambda>c. c \<noteq> CHR ''{'') (pre @ (CHR ''{'' # body @ [CHR ''}'']) @ r)
              = CHR ''{'' # (body @ CHR ''}'' # r)"
    using assms(1) dropWhile_skip [of "CHR ''{''" pre "body @ CHR ''}'' # r"]
    by simp
  have d2: "dropWhile (\<lambda>c. c \<noteq> CHR ''}'') (body @ CHR ''}'' # r) = CHR ''}'' # r"
    using assms(2) by (simp add: dropWhile_skip)
  have t2: "takeWhile (\<lambda>c. c \<noteq> CHR ''}'') (body @ CHR ''}'' # r) = body"
    using assms(2) by (simp add: takeWhile_skip)
  show ?thesis using scan_buffer_match [OF d1 d2] t2 by simp
qed

lemma scan_buffer_layout:
  "brace_free pre \<Longrightarrow> \<forall>(obj, sep) \<in> set items. closes_at_end obj \<and> brace_free sep \<Longrightarrow>
     scan_buffer (layout pre items) =
       (map fst items, if items = [] then pre else snd (last items))"
proof (induction items arbitrary: pre)
  case Nil
  then show ?case by (simp add: layout_def scan_buffer_brace_free)
next
  case (Cons it items)
  obtain obj sep where it: "it = (obj, sep)" by (cases it)
  from Cons.prems it have fo: "closes_at_end obj" and bs: "brace_free sep"
    and rest: "\<forall>(obj, sep) \<in> set items. closes_at_end obj \<and> brace_free sep" by auto
  from closes_at_endD [OF fo] obtain body where
    obj: "obj = CHR ''{'' # body @ [CHR ''}'']" and bb: "CHR ''}'' \<notin> set body" by blast
  from Cons.prems(1) have np: "CHR ''{'' \<notin> set pre" by (simp add: brace_free_def)
  have "layout pre (it # items) = pre @ (CHR ''{'' # body @ [CHR ''}'']) @ layout sep items"
    by (simp add: layout_def it obj)
  then have "scan_buffer (layout pre (it # items)) =
      (obj # fst (scan_buffer (layout sep items)), snd (scan_buffer (layout sep items)))"
    using scan_buffer_object [OF np bb, of "layout sep items"] obj by simp
  then show ?case
    using Cons.IH [OF bs rest] it by simp
qed


lemma map_filter_append:
  "List.map_filter f (xs @ ys) = List.map_filter f xs @ List.map_filter f ys"
  by (simp add: List.map_filter_def)

lemma add_chunk_append:
  "add_chunk loads self (a @ b) =
     (fst (add_chunk loads self a) @ fst (add_chunk loads (snd (add_chunk loads self a)) b),
      snd (add_chunk loads (snd (add_chunk loads self a)) b))"
proof -
  define s1 where "s1 = scan_buffer (buffer self @ a)"
  define s2 where "s2 = scan_buffer (snd s1 @ b)"
  have sb: "scan_buffer (buffer self @ a @ b) = (fst s1 @ fst s2, snd s2)"
    using scan_buffer_append [of "buffer self @ a" b] by (simp add: s1_def s2_def)
  show ?thesis
    unfolding add_chunk_char [of loads self "a @ b"] add_chunk_char [of loads self a]
      add_chunk_char [of loads _ b] sb
    by (simp add: s1_def [symmetric] s2_def [symmetric] map_filter_append)
qed

lemma add_chunk_empty:
  "finditer (buffer self) = [] \<Longrightarrow> add_chunk loads self [] = ([], self)"
  by (simp add: add_chunk_def)

lemma add_chunk_keeps_no_span: "finditer (buffer (snd (add_chunk loads self text))) = []"
  by (simp add: add_chunk_char finditer_Nil_iff scan_buffer_idem)

lemma feed_concat:
  "finditer (buffer self) = [] \<Longrightarrow> feed loads self chunks = add_chunk loads self (concat chunks)"
proof (induction chunks arbitrary: self)
  case Nil
  then show ?case by (simp add: add_chunk_empty)
next
  case (Cons c cs)
  have "feed loads (snd (add_chunk loads self c)) cs
          = add_chunk loads (snd (add_chunk loads self c)) (concat cs)"
    by (rule Cons.IH) (rule add_chunk_keeps_no_span)
  then show ?case
    by (simp add: add_chunk_append [of loads self c "concat cs"] case_prod_beta)
qed

lemma parse_json_Some: "parse_json loads c = Some d \<Longrightarrow> loads c = Inr d"
  by (auto simp: parse_json_def split: sum.splits json.splits py_exception.splits if_splits)

lemma parse_json_accepts:
  "parse_json loads c \<noteq> None \<longleftrightarrow> (\<exists>items. loads c = Inr (JObject items) \<and> items \<noteq> [])"
  by (auto simp: parse_json_def split: sum.splits json.splits py_exception.splits if_splits)

lemma map_filter_all_Some:
  "\<forall>x \<in> set xs. f x \<noteq> None \<Longrightarrow> map Some (List.map_filter f xs) = map f xs"
  by (induction xs) (auto simp: map_filter_simps split: option.splits)

lemma parse_json_accepted:
  "accepted loads c \<Longrightarrow> \<exists>d. parse_json loads c = Some d \<and> loads c = Inr d"
  by (auto simp: parse_json_def accepted_def split: sum.splits json.splits py_exception.splits)

lemma parse_json_rejected: "\<not> accepted loads c \<Longrightarrow> parse_json loads c = None"
  by (auto simp: parse_json_def accepted_def split: sum.splits json.splits py_exception.splits)

lemma parse_json_None_iff: "parse_json loads c = None \<longleftrightarrow> \<not> accepted loads c"
  using parse_json_accepted [of loads c] parse_json_rejected [of loads c] by auto

lemma map_filter_parse_json:
  "map Inr (List.map_filter (parse_json loads) cs) = map loads (filter (accepted loads) cs)"
proof (induction cs)
  case Nil
  then show ?case by (simp add: map_filter_simps)
next
  case (Cons c cs)
  show ?case
  proof (cases "accepted loads c")
    case True
    from parse_json_accepted [OF this] obtain d where
      "parse_json loads c = Some d" "loads c = Inr d" by blast
    with True Cons show ?thesis by (simp add: map_filter_simps)
  next
    case False
    with parse_json_rejected [OF this] Cons show ?thesis by (simp add: map_filter_simps)
  qed
qed

lemma length_map_filter_parse_json:
  "length (List.map_filter (parse_json loads) cs) = length (filter (accepted loads) cs)"
  using arg_cong [OF map_filter_parse_json [of loads cs], of length] by simp

lemma length_filter_rejected:
  "int (length cs) - int (length (filter P cs)) = int (length (filter (\<lambda>c. \<not> P c) cs))"
  using sum_length_filter_compl [of P cs] by simp

subsection \<open>Chunking\<close>

text \<open>
  An object whose value is an integer literal of more than 4300 digits: the decoder
  raises \<open>ValueError\<close>, the candidate is rejected.
\<close>

lemma takeWhile_replicate_append:
  "P x \<Longrightarrow> takeWhile P (replicate n x @ ys) = replicate n x @ takeWhile P ys"
  by (induction n) auto

lemma dropWhile_replicate_append:
  "P x \<Longrightarrow> dropWhile P (replicate n x @ ys) = dropWhile P ys"
  by (induction n) auto

lemma match_number_ones:
  "match_number (CHR ''1'' # replicate n (CHR ''1'') @ ''}'')
     = Some (CHR ''1'' # replicate n (CHR ''1''), True, ''}'')"
proof -
  have d: "is_digit (CHR ''1'')" by (simp add: is_digit_def)
  have nd: "\<not> is_digit (CHR ''}'')" by (simp add: is_digit_def)
  show ?thesis
    by (simp add: match_number_def Let_def d nd takeWhile_replicate_append
        dropWhile_replicate_append)
qed

lemma scan_literal_ones:
  "int_max_str_digits \<le> n \<Longrightarrow>
     scan_literal (CHR ''1'' # replicate n (CHR ''1'') @ ''}'') = Inl OtherException"
proof -
  assume n: "int_max_str_digits \<le> n"
  have d: "is_digit (CHR ''1'')" by (simp add: is_digit_def)
  show ?thesis
    using n by (simp add: scan_literal_def match_number_ones d)
qed

lemma scan_once_long_integer:
  "int_max_str_digits \<le> n \<Longrightarrow>
     scan_once (Suc (Suc (Suc k))) (Suc d) (''{\"a\":1'' @ replicate n (CHR ''1'') @ ''}'')
       = Inl OtherException"
  using scan_literal_ones [of n]
  by (simp add: skip_ws_def is_ws_def escape_char_def)

lemma json_loads_long_integer:
  "int_max_str_digits \<le> n \<Longrightarrow>
     json_loads (''{\"a\":1'' @ replicate n (CHR ''1'') @ ''}'') = Inl OtherException"
proof -
  assume n: "int_max_str_digits \<le> n"
  have fuel: "2 * length (''{\"a\":1'' @ replicate n (CHR ''1'') @ ''}'') + 2
      = Suc (Suc (Suc (2 * n + 13)))" by simp
  have depth: "recursion_remaining = Suc 989" by (simp add: recursion_remaining_def)
  have sw: "skip_ws (''{\"a\":1'' @ replicate n (CHR ''1'') @ ''}'')
      = ''{\"a\":1'' @ replicate n (CHR ''1'') @ ''}''"
    by (simp add: skip_ws_def is_ws_def)
  show ?thesis
    by (simp only: json_loads_def fuel sw depth scan_once_long_integer [OF n] sum.case)
qed


lemma parse_json_raises: "loads c = Inl e \<Longrightarrow> parse_json loads c = None"
  by (cases e) (simp_all add: parse_json_def)

lemma feed_long_integer:
  "int_max_str_digits \<le> n \<Longrightarrow>
     fst (feed json_loads init_processor [''{\"a\":1'' @ replicate n (CHR ''1'') @ ''}'']) = []"
proof -
  assume n: "int_max_str_digits \<le> n"
  define body where "body = ''\"a\":1'' @ replicate n (CHR ''1'')"
  have t: "''{\"a\":1'' @ replicate n (CHR ''1'') @ ''}'' = [] @ (CHR ''{'' # body @ [CHR ''}'']) @ []"
    by (simp add: body_def)
  have nb: "CHR ''}'' \<notin> set body" by (auto simp: body_def)
  have sb: "scan_buffer ([] @ (CHR ''{'' # body @ [CHR ''}'']) @ [])
      = ([CHR ''{'' # body @ [CHR ''}'']], [])"
    using scan_buffer_object [of "[]" body "[]"] nb
    by (simp add: scan_buffer_no_open)
  have pj: "parse_json json_loads ([] @ (CHR ''{'' # body @ [CHR ''}'']) @ []) = None"
    unfolding t [symmetric] by (rule parse_json_raises) (rule json_loads_long_integer [OF n])
  have "fst (add_chunk json_loads init_processor ([] @ (CHR ''{'' # body @ [CHR ''}'']) @ [])) = []"
    using pj by (simp add: add_chunk_char init_processor_def sb [simplified] map_filter_simps)
  then show ?thesis
    unfolding t by (simp add: case_prod_beta)
qed

text \<open>
  C1 (as stated): every valid non-empty JSON object of the input is returned. The
  text \<open>{"a":"}"}\<close> is one valid object with one key, fed to a fresh extractor in one
  chunk; the candidate span ends at the brace inside the string, and nothing is
  returned. The text \<open>{"a":1...1}\<close> with 4301 digits is one valid object with one key
  and no inner brace; the decoder raises on it, and nothing is returned.
\<close>

theorem chunking_counterexample:
  "json_loads ''{\"a\":\"}\"}'' = Inr (JObject [(str ''a'', JString (str ''}''))])
   \<and> fst (feed json_loads init_processor [''{\"a\":\"}\"}'']) = []
   \<and> fst (feed json_loads init_processor
          [''{\"a\":1'' @ replicate 4300 (CHR ''1'') @ ''}'']) = []"
proof (intro conjI)
  show "json_loads ''{\"a\":\"}\"}'' = Inr (JObject [(str ''a'', JString (str ''}''))])"
    by code_simp
  show "fst (feed json_loads init_processor [''{\"a\":\"}\"}'']) = []"
    by code_simp
  have "int_max_str_digits \<le> 4300" by (simp add: int_max_str_digits_def)
  then show "fst (feed json_loads init_processor
          [''{\"a\":1'' @ replicate 4300 (CHR ''1'') @ ''}'']) = []"
    by (rule feed_long_integer)
qed

text \<open>
  C1 (amended): when the concatenated input is brace-free text around N object texts,
  each opening with a brace, having its only closing brace as its last character, and
  decoded by \<open>json.loads\<close> to a non-empty object, the records returned by the calls on
  a fresh extractor, concatenated, are the N decoded objects in input order; and any
  other split of the same input into chunks returns the same records.
\<close>

theorem chunking_invariance_single_span:
  assumes "brace_free pre"
    and "\<forall>(obj, sep) \<in> set items.
           closes_at_end obj \<and> brace_free sep
           \<and> (\<exists>kvs. loads obj = Inr (JObject kvs) \<and> kvs \<noteq> [])"
    and "concat chunks = layout pre items"
  shows "map Inr (fst (feed loads init_processor chunks)) = map (loads \<circ> fst) items
    \<and> length (fst (feed loads init_processor chunks)) = length items
    \<and> (\<forall>chunks'. concat chunks' = concat chunks \<longrightarrow>
          fst (feed loads init_processor chunks') = fst (feed loads init_processor chunks))"
proof -
  have inv: "finditer (buffer init_processor) = []"
    by (simp add: init_processor_def finditer_Nil_iff scan_buffer_brace_free brace_free_def)
  have shape: "\<forall>(obj, sep) \<in> set items. closes_at_end obj \<and> brace_free sep"
    using assms(2) by auto
  have acc: "\<forall>c \<in> set (map fst items). parse_json loads c \<noteq> None"
  proof
    fix c assume "c \<in> set (map fst items)"
    then obtain sep where "(c, sep) \<in> set items" by auto
    with assms(2) have "\<exists>kvs. loads c = Inr (JObject kvs) \<and> kvs \<noteq> []" by blast
    then show "parse_json loads c \<noteq> None" by (simp only: parse_json_accepts)
  qed
  have "fst (feed loads init_processor chunks)
      = fst (add_chunk loads init_processor (layout pre items))"
    by (simp only: feed_concat [OF inv] assms(3))
  also have "\<dots> = List.map_filter (parse_json loads) (map fst items)"
    by (simp add: add_chunk_char init_processor_def scan_buffer_layout [OF assms(1) shape])
  finally have out: "fst (feed loads init_processor chunks)
      = List.map_filter (parse_json loads) (map fst items)" .
  have "map Some (fst (feed loads init_processor chunks)) = map (parse_json loads) (map fst items)"
    unfolding out by (rule map_filter_all_Some [OF acc])
  then have some: "\<forall>i < length items.
      parse_json loads (fst (items ! i)) = Some (fst (feed loads init_processor chunks) ! i)"
    and len: "length (fst (feed loads init_processor chunks)) = length items"
    by (auto simp: list_eq_iff_nth_eq)
  have "\<forall>i < length items.
      Inr (fst (feed loads init_processor chunks) ! i) = loads (fst (items ! i))"
  proof (intro allI impI)
    fix i assume "i < length items"
    with some have "parse_json loads (fst (items ! i))
        = Some (fst (feed loads init_processor chunks) ! i)" by blast
    from parse_json_Some [OF this]
    show "Inr (fst (feed loads init_processor chunks) ! i) = loads (fst (items ! i))" by simp
  qed
  then have m: "map Inr (fst (feed loads init_processor chunks)) = map (loads \<circ> fst) items"
    using len by (simp add: list_eq_iff_nth_eq)
  have inv_chunks: "\<forall>chunks'. concat chunks' = concat chunks \<longrightarrow>
          fst (feed loads init_processor chunks') = fst (feed loads init_processor chunks)"
    by (simp add: feed_concat [OF inv])
  from m len inv_chunks show ?thesis by (intro conjI)
qed

theorem chunking_invariance_single_span_witness:
  "map Inr (fst (feed json_loads init_processor [''boot {\"a\":\"{\"}X{\"b\"'', '':2}'']))
     = [Inr (JObject [(str ''a'', JString (str ''{''))]) :: py_exception + json,
        Inr (JObject [(str ''b'', JNumber ''2'')])]
   \<and> length (fst (feed json_loads init_processor [''boot {\"a\":\"{\"}X{\"b\"'', '':2}''])) = 2"
proof -
  have e1: "json_loads ''{\"a\":\"{\"}'' = Inr (JObject [(str ''a'', JString (str ''{''))])"
    by code_simp
  have e2: "json_loads ''{\"b\":2}'' = Inr (JObject [(str ''b'', JNumber ''2'')])" by code_simp
  have f1: "closes_at_end ''{\"a\":\"{\"}''" by code_simp
  have f2: "closes_at_end ''{\"b\":2}''" by code_simp
  have b1: "brace_free ''X''" by code_simp
  have b2: "brace_free []" by code_simp
  have h1: "brace_free ''boot ''" by code_simp
  have h2: "\<forall>(obj, sep) \<in> set [(''{\"a\":\"{\"}'', ''X''), (''{\"b\":2}'', [])].
           closes_at_end obj \<and> brace_free sep
           \<and> (\<exists>kvs. json_loads obj = Inr (JObject kvs) \<and> kvs \<noteq> [])"
    using e1 e2 f1 f2 b1 b2 by simp
  have h3: "concat [''boot {\"a\":\"{\"}X{\"b\"'', '':2}'']
      = layout ''boot '' [(''{\"a\":\"{\"}'', ''X''), (''{\"b\":2}'', [])]"
    by (simp add: layout_def)
  note w = chunking_invariance_single_span [OF h1 h2 h3]
  from w have
    "map Inr (fst (feed json_loads init_processor [''boot {\"a\":\"{\"}X{\"b\"'', '':2}'']))
      = map (json_loads \<circ> fst) [(''{\"a\":\"{\"}'', ''X''), (''{\"b\":2}'', [])]"
    by (rule conjunct1)
  moreover from w have
    "length (fst (feed json_loads init_processor [''boot {\"a\":\"{\"}X{\"b\"'', '':2}'']))
      = length [(''{\"a\":\"{\"}'', ''X''), (''{\"b\":2}'', [] :: string)]"
    by (rule conjunct1 [OF conjunct2])
  ultimately show ?thesis
    by (simp add: e1 e2 del: feed.simps)
qed

subsection \<open>Classification of the candidates\<close>

text \<open>
  C5: the candidates of a call are the spans found in the old buffer followed by the
  new text. The received count grows by their number; the returned records are the
  decoded accepted candidates, in order, and the parsed count grows by their number;
  the invalid count grows by the number of the others. \<open>add_chunk\<close> returns for every
  decoder, whatever it raises.
\<close>

theorem add_chunk_classification:
  "total_received (snd (add_chunk loads self text))
     = total_received self
       + int (length (map (group (buffer self @ text)) (finditer (buffer self @ text))))
   \<and> map Inr (fst (add_chunk loads self text))
     = map loads (filter (accepted loads)
         (map (group (buffer self @ text)) (finditer (buffer self @ text))))
   \<and> total_parsed (snd (add_chunk loads self text))
     = total_parsed self
       + int (length (filter (accepted loads)
           (map (group (buffer self @ text)) (finditer (buffer self @ text)))))
   \<and> total_invalid (snd (add_chunk loads self text))
     = total_invalid self
       + int (length (filter (\<lambda>c. \<not> accepted loads c)
           (map (group (buffer self @ text)) (finditer (buffer self @ text)))))"
  unfolding finditer_scan_buffer add_chunk_char
  by (simp add: map_filter_parse_json length_map_filter_parse_json
      length_filter_rejected [symmetric])

theorem add_chunk_classification_witness:
  "total_received (snd (add_chunk json_loads init_processor ''{\"a\":1}{}{bad}'')) = 3
   \<and> total_parsed (snd (add_chunk json_loads init_processor ''{\"a\":1}{}{bad}'')) = 1
   \<and> total_invalid (snd (add_chunk json_loads init_processor ''{\"a\":1}{}{bad}'')) = 2
   \<and> map Inr (fst (add_chunk json_loads init_processor ''{\"a\":1}{}{bad}''))
       = [Inr (JObject [(str ''a'', JNumber ''1'')]) :: py_exception + json]"
proof -
  have c: "map (group (buffer init_processor @ ''{\"a\":1}{}{bad}''))
             (finditer (buffer init_processor @ ''{\"a\":1}{}{bad}''))
           = [''{\"a\":1}'', ''{}'', ''{bad}'']" by code_simp
  have a1: "accepted json_loads ''{\"a\":1}''" by code_simp
  have a2: "\<not> accepted json_loads ''{}''" by code_simp
  have a3: "\<not> accepted json_loads ''{bad}''" by code_simp
  have e1: "json_loads ''{\"a\":1}'' = Inr (JObject [(str ''a'', JNumber ''1'')])" by code_simp
  have r: "total_received init_processor = 0" "total_parsed init_processor = 0"
    "total_invalid init_processor = 0" by (simp_all add: init_processor_def)
  from add_chunk_classification [of json_loads init_processor "''{\"a\":1}{}{bad}''"]
  show ?thesis unfolding c by (simp add: a1 a2 a3 e1 r)
qed

subsection \<open>The buffer after a call\<close>

text \<open>
  C4: when the old buffer followed by the new text has no candidate span, the call
  returns no record and the buffer is that whole text; otherwise the buffer is what
  follows the end of the last span. In both cases the buffer kept has no candidate
  span left in it.
\<close>

theorem add_chunk_buffer_postcondition:
  "(finditer (buffer self @ text) = [] \<longrightarrow>
      add_chunk loads self text = ([], self\<lparr>buffer := buffer self @ text\<rparr>))
   \<and> (finditer (buffer self @ text) \<noteq> [] \<longrightarrow>
      buffer (snd (add_chunk loads self text))
        = drop (snd (last (finditer (buffer self @ text)))) (buffer self @ text))
   \<and> finditer (buffer (snd (add_chunk loads self text))) = []"
proof (intro conjI impI)
  assume "finditer (buffer self @ text) = []"
  then show "add_chunk loads self text = ([], self\<lparr>buffer := buffer self @ text\<rparr>)"
    by (simp add: add_chunk_def)
next
  assume "finditer (buffer self @ text) \<noteq> []"
  then show "buffer (snd (add_chunk loads self text))
        = drop (snd (last (finditer (buffer self @ text)))) (buffer self @ text)"
    by (simp add: add_chunk_char scan_buffer_rest del: drop_append)
next
  show "finditer (buffer (snd (add_chunk loads self text))) = []"
    by (rule add_chunk_keeps_no_span)
qed

theorem add_chunk_buffer_postcondition_witness:
  "add_chunk json_loads init_processor ''abc{''
     = ([], init_processor\<lparr>buffer := ''abc{''\<rparr>)
   \<and> buffer (snd (add_chunk json_loads (init_processor\<lparr>buffer := ''{\"b\"''\<rparr>) '':2} tail''))
     = '' tail''"
proof -
  have n: "finditer (buffer init_processor @ ''abc{'') = []" by code_simp
  have m: "finditer (buffer (init_processor\<lparr>buffer := ''{\"b\"''\<rparr>) @ '':2} tail'') = [(0, 7)]"
    by code_simp
  have b: "buffer init_processor = []" by (simp add: init_processor_def)
  from add_chunk_buffer_postcondition [of init_processor "''abc{''" json_loads]
    add_chunk_buffer_postcondition [of "init_processor\<lparr>buffer := ''{\"b\"''\<rparr>" "'':2} tail''" json_loads]
  show ?thesis unfolding n m by (simp add: b)
qed


section \<open>Extractor statistics\<close>

lemma floor_log2_le: "2 powi floor_log2 x \<le> x" if "0 < x"
proof -
  obtain a b where q: "quotient_of x = (a, b)" by (cases "quotient_of x")
  have b: "0 < b" using quotient_of_denom_pos [OF q] .
  have x: "x = of_int a / of_int b" using quotient_of_div [OF q] .
  have a: "0 < a" using that b x by (simp add: zero_less_divide_iff)
  define n where "n = bitlen a - bitlen b"
  show ?thesis
  proof (cases "2 powi n \<le> x")
    case True
    then show ?thesis by (simp add: floor_log2_def q n_def)
  next
    case False
    then have fl: "floor_log2 x = n - 1" by (simp add: floor_log2_def q n_def)
    have la: "1 \<le> bitlen a" using a bitlen_eq_zero_iff [of a] bitlen_nonneg [of a] by linarith
    have lb: "1 \<le> bitlen b" using b bitlen_eq_zero_iff [of b] bitlen_nonneg [of b] by linarith
    have "(2::int) ^ nat (bitlen a - 1) \<le> a" using bitlen_bounds [OF a] by simp
    then have "(of_int ((2::int) ^ nat (bitlen a - 1)) :: rat) \<le> of_int a"
      by (simp only: of_int_le_iff)
    then have A: "(2::rat) powi (bitlen a - 1) \<le> of_int a"
      using la by (simp add: power_int_def)
    have "b < (2::int) ^ nat (bitlen b)" using bitlen_bounds [OF b] by simp
    then have "(of_int b :: rat) < of_int ((2::int) ^ nat (bitlen b))"
      by (simp only: of_int_less_iff)
    then have B: "of_int b < (2::rat) powi (bitlen b)"
      using lb by (simp add: power_int_def)
    have "(2::rat) powi (n - 1) = 2 powi (bitlen a - 1) / 2 powi (bitlen b)"
    proof -
      have "bitlen a - bitlen b - 1 = (bitlen a - 1) - bitlen b" by simp
      then have "(2::rat) powi (n - 1) = 2 powi ((bitlen a - 1) - bitlen b)"
        unfolding n_def by (rule arg_cong)
      moreover have "(2::rat) powi ((bitlen a - 1) - bitlen b)
          = 2 powi (bitlen a - 1) / 2 powi (bitlen b)"
        by (rule power_int_diff) simp
      ultimately show ?thesis by simp
    qed
    also have "\<dots> \<le> of_int a / 2 powi (bitlen b)"
      using A by (simp add: divide_right_mono)
    also have "\<dots> \<le> of_int a / of_int b"
      using B a b by (simp add: frac_le)
    finally show ?thesis using fl x by simp
  qed
qed

lemma round_half_even_bounds:
  "0 \<le> q \<Longrightarrow> 0 \<le> round_half_even q \<and> of_int (round_half_even q) \<le> q + 1 / 2"
  unfolding round_half_even_def Let_def
  by (auto simp: not_less) linarith+

lemma round_to_double_bounds:
  "0 \<le> round_to_double x \<and> round_to_double x \<le> 2 * x + 1" if "0 < x"
proof -
  define e where "e = max (floor_log2 x - 52) (- 1074)"
  define m where "m = round_half_even (x / 2 powi e)"
  have pe: "(0::rat) < 2 powi e" by (simp add: zero_less_power_int)
  have r: "round_to_double x = of_int m * 2 powi e"
    using that by (simp add: round_to_double_def e_def m_def Let_def)
  have q: "(0::rat) \<le> x / 2 powi e" using that pe by simp
  from round_half_even_bounds [OF q] have m0: "0 \<le> m" and m1: "of_int m \<le> x / 2 powi e + 1 / 2"
    by (simp_all add: m_def)
  have "of_int m * 2 powi e \<le> (x / 2 powi e + 1 / 2) * 2 powi e"
    using m1 pe by (simp add: mult_right_mono)
  also have "\<dots> = x + 2 powi e / 2" using pe by (simp add: field_simps)
  finally have up: "of_int m * 2 powi e \<le> x + 2 powi e / 2" .
  have "(2::rat) powi e \<le> x + 1"
  proof (cases "floor_log2 x - 52 \<le> - 1074")
    case True
    then have "e = - 1074" by (simp add: e_def)
    then have "(2::rat) powi e \<le> 1"
      by (simp add: power_int_def inverse_eq_divide power_le_one)
    then show ?thesis using that by linarith
  next
    case False
    then have "e = floor_log2 x - 52" by (simp add: e_def)
    then have "(2::rat) powi e = 2 powi floor_log2 x / 2 ^ 52"
      by (simp add: power_int_diff)
    also have "\<dots> \<le> 2 powi floor_log2 x"
      by (simp add: zero_le_power_int field_simps)
    also have "\<dots> \<le> x" using floor_log2_le [OF that] .
    finally show ?thesis by linarith
  qed
  with up have "of_int m * 2 powi e \<le> 2 * x + 1" using that by linarith
  moreover have "(0::rat) \<le> of_int m * 2 powi e" using m0 pe by simp
  ultimately show ?thesis using r by simp
qed


lemma float_of_exact_small:
  "0 < x \<Longrightarrow> x \<le> 1000 \<Longrightarrow> float_of_exact x = Finite (round_to_double x)"
proof -
  assume x: "0 < x" "x \<le> 1000"
  from round_to_double_bounds [OF x(1)] x(2)
  have "0 \<le> round_to_double x" "round_to_double x \<le> 2001" by simp_all
  moreover have "(2001::rat) < 2 ^ 1024" by simp
  ultimately have "\<bar>round_to_double x\<bar> < 2 ^ 1024" by simp
  then show ?thesis using x(1) by (simp add: float_of_exact_def Let_def)
qed

lemma percentage_of_ratio:
  assumes "0 < r" "0 \<le> p" "p \<le> r"
  shows "(case int_truediv p r of
            Inl err \<Rightarrow> Inl err
          | Inr q \<Rightarrow> Inr (PyFloat (float_mul q (Finite 100))))
         = Inr (PyFloat (Finite (round_to_double (round_to_double (of_int p / of_int r) * 100))))"
proof (cases "p = 0")
  case True
  then show ?thesis using assms by (simp add: int_truediv_def round_to_double_def)
next
  case False
  define x :: rat where "x = of_int p / of_int r"
  have x: "0 < x" "x \<le> 1" using assms False by (simp_all add: x_def)
  have q: "float_of_exact x = Finite (round_to_double x)"
    using x by (intro float_of_exact_small) simp_all
  have d: "int_truediv p r = Inr (Finite (round_to_double x))"
    using assms False q by (simp add: int_truediv_def x_def)
  from round_to_double_bounds [OF x(1)] x(2)
  have b: "0 \<le> round_to_double x" "round_to_double x \<le> 3" by simp_all
  show ?thesis
  proof (cases "round_to_double x = 0")
    case True
    then show ?thesis unfolding d x_def [symmetric] by (simp add: round_to_double_def)
  next
    case False
    with b have "0 < round_to_double x * 100" "round_to_double x * 100 \<le> 1000" by simp_all
    from float_of_exact_small [OF this] False
    show ?thesis unfolding d x_def [symmetric] by simp
  qed
qed

lemma int_truediv_ratio:
  assumes "0 < r" "0 < p" "p \<le> r"
  shows "int_truediv p r = Inr (Finite (round_to_double (of_int p / of_int r)))"
proof -
  have le1: "(of_int p / of_int r :: rat) \<le> 1" using assms by simp
  have pos: "0 < (of_int p / of_int r :: rat)" using assms by simp
  have le: "(of_int p / of_int r :: rat) \<le> 1000" using le1 by linarith
  from float_of_exact_small [OF pos le] show ?thesis
    using assms by (simp add: int_truediv_def)
qed

lemma round_7_of_10: "round_to_double (of_int 7 / of_int 10) = 3152519739159347 / 4503599627370496"
  by code_simp

lemma round_70: "round_to_double (3152519739159347 / 4503599627370496 * 100) = 70"
  by code_simp

lemma round_70_of_7_of_10: "round_to_double (round_to_double (7 / 10) * 100) = 70"
  by code_simp

lemma round_7_of_100: "round_to_double (round_to_double (7 / 100) * 100) = 7 + 1 / 2 ^ 50"
  by code_simp

text \<open>
  C10 (as stated): \<open>parse_rate = parsed / received\<close>. At \<open>received = 10\<close>,
  \<open>parsed = 7\<close> the processor reports the float 70.0; the quotient \<open>7 / 10\<close> is the
  float nearest to 0.7. The rate is a percentage.
\<close>

theorem get_stats_ratio_counterexample:
  "fst (get_stats \<lparr>buffer = [], total_received = 10, total_parsed = 7, total_invalid = 3\<rparr>)
     = Inr \<lparr>stat_total_received = 10, stat_total_parsed = 7, stat_total_invalid = 3,
            stat_parse_rate = PyFloat (Finite 70), stat_buffer_size = 0\<rparr>
   \<and> int_truediv 7 10 = Inr (Finite (3152519739159347 / 4503599627370496))
   \<and> Finite 70 \<noteq> Finite (3152519739159347 / 4503599627370496)"
proof -
  have d: "int_truediv 7 10 = Inr (Finite (3152519739159347 / 4503599627370496))"
    using int_truediv_ratio [of 10 7] round_7_of_10 by simp
  have "(0::rat) < 3152519739159347 / 4503599627370496 * 100"
    "(3152519739159347 / 4503599627370496 * 100 :: rat) \<le> 1000" by simp_all
  from float_of_exact_small [OF this]
  have m: "float_mul (Finite (3152519739159347 / 4503599627370496)) (Finite 100) = Finite 70"
    using round_70 by simp
  show ?thesis using d m by (simp add: get_stats_def)
qed

text \<open>
  C10 (amended): \<open>get_stats\<close> leaves the processor as it found it. When \<open>received\<close> is
  not positive it reports the three counters, the length of the buffer and the integer
  0 as parse rate. In every state with \<open>0 \<le> parsed \<le> received\<close> and \<open>received\<close>
  positive (the states the extractor can reach) it raises nothing and reports the
  counters, the length of the buffer and, as parse rate, the percentage computed in
  double precision: the quotient \<open>parsed / received\<close> rounded to a double, times 100,
  rounded to a double.
\<close>

theorem get_stats_double_percentage:
  "snd (get_stats self) = self
   \<and> (total_received self \<le> 0 \<longrightarrow>
        fst (get_stats self) =
          Inr \<lparr>stat_total_received = total_received self,
               stat_total_parsed = total_parsed self,
               stat_total_invalid = total_invalid self,
               stat_parse_rate = PyInt 0,
               stat_buffer_size = length (buffer self)\<rparr>)
   \<and> (0 < total_received self \<and> 0 \<le> total_parsed self
        \<and> total_parsed self \<le> total_received self \<longrightarrow>
        fst (get_stats self) =
          Inr \<lparr>stat_total_received = total_received self,
               stat_total_parsed = total_parsed self,
               stat_total_invalid = total_invalid self,
               stat_parse_rate =
                 PyFloat (Finite (round_to_double
                   (round_to_double (of_int (total_parsed self) / of_int (total_received self))
                      * 100))),
               stat_buffer_size = length (buffer self)\<rparr>)"
proof (intro conjI impI)
  show "snd (get_stats self) = self"
    by (simp add: get_stats_def split: sum.splits)
next
  assume "total_received self \<le> 0"
  then show "fst (get_stats self) =
          Inr \<lparr>stat_total_received = total_received self,
               stat_total_parsed = total_parsed self,
               stat_total_invalid = total_invalid self,
               stat_parse_rate = PyInt 0,
               stat_buffer_size = length (buffer self)\<rparr>"
    by (simp add: get_stats_def)
next
  assume a: "0 < total_received self \<and> 0 \<le> total_parsed self
        \<and> total_parsed self \<le> total_received self"
  then have "(case int_truediv (total_parsed self) (total_received self) of
            Inl err \<Rightarrow> Inl err
          | Inr q \<Rightarrow> Inr (PyFloat (float_mul q (Finite 100))))
         = Inr (PyFloat (Finite (round_to_double
             (round_to_double (of_int (total_parsed self) / of_int (total_received self)) * 100))))"
    by (intro percentage_of_ratio) simp_all
  then show "fst (get_stats self) =
          Inr \<lparr>stat_total_received = total_received self,
               stat_total_parsed = total_parsed self,
               stat_total_invalid = total_invalid self,
               stat_parse_rate =
                 PyFloat (Finite (round_to_double
                   (round_to_double (of_int (total_parsed self) / of_int (total_received self))
                      * 100))),
               stat_buffer_size = length (buffer self)\<rparr>"
    using a by (simp add: get_stats_def)
qed

theorem get_stats_double_percentage_witness:
  "fst (get_stats \<lparr>buffer = ''{\"a\"'', total_received = 10, total_parsed = 7, total_invalid = 3\<rparr>)
     = Inr \<lparr>stat_total_received = 10, stat_total_parsed = 7, stat_total_invalid = 3,
            stat_parse_rate = PyFloat (Finite 70), stat_buffer_size = 4\<rparr>
   \<and> fst (get_stats \<lparr>buffer = [], total_received = 100, total_parsed = 7, total_invalid = 93\<rparr>)
     = Inr \<lparr>stat_total_received = 100, stat_total_parsed = 7, stat_total_invalid = 93,
            stat_parse_rate = PyFloat (Finite (7 + 1 / 2 ^ 50)), stat_buffer_size = 0\<rparr>
   \<and> fst (get_stats \<lparr>buffer = [], total_received = 0, total_parsed = 0, total_invalid = 0\<rparr>)
     = Inr \<lparr>stat_total_received = 0, stat_total_parsed = 0, stat_total_invalid = 0,
            stat_parse_rate = PyInt 0, stat_buffer_size = 0\<rparr>"
  using get_stats_double_percentage
    [of "\<lparr>buffer = ''{\"a\"'', total_received = 10, total_parsed = 7, total_invalid = 3\<rparr>"]
    get_stats_double_percentage
    [of "\<lparr>buffer = [], total_received = 100, total_parsed = 7, total_invalid = 93\<rparr>"]
    get_stats_double_percentage
    [of "\<lparr>buffer = [], total_received = 0, total_parsed = 0, total_invalid = 0\<rparr>"]
  by (simp add: round_70_of_7_of_10 round_7_of_100)

section \<open>Properties of the sink client\<close>

text \<open>
  The outcome of a send by the outcome of the request: a status from 200 to 299 returns
  true and counts as sent; a status from 400 to 599 and every exception of class
  \<open>Exception\<close> return false and count as failed, once.
\<close>

lemma send_telemetry_cases:
  "send_telemetry self post data timeout now =
     (case post (telemetry_url self) data timeout of
        Response status_code \<Rightarrow>
          if response_ok status_code
          then Inr (True, LogSent,
                self\<lparr>last_send_time := Some now, total_sent := total_sent self + 1\<rparr>)
          else Inr (False, LogThingsBoardError status_code,
                self\<lparr>last_send_time := Some now, total_failed := total_failed self + 1\<rparr>)
      | Raises e \<Rightarrow>
          Inr (False,
               if is_Timeout e then LogTimeout
               else if is_ConnectionError e then LogConnectionError else LogUnexpected,
               self\<lparr>total_failed := total_failed self + 1\<rparr>)
      | Interrupted \<Rightarrow> Inl KeyboardInterrupt)"
  by (simp add: send_telemetry_def Let_def split: http_outcome.splits)

lemma send_telemetry_counts:
  assumes "send_telemetry self post data timeout now = Inr (ok, lg, cl)"
  shows "total_sent cl = total_sent self + (if ok then 1 else 0)"
    and "total_failed cl = total_failed self + (if ok then 0 else 1)"
    and "telemetry_url cl = telemetry_url self"
  using assms
  by (auto simp: send_telemetry_cases split: http_outcome.splits if_splits)

lemma send_telemetry_2xx:
  "post (telemetry_url self) data timeout = Response status_code \<Longrightarrow>
   200 \<le> status_code \<Longrightarrow> status_code < 300 \<Longrightarrow>
     send_telemetry self post data timeout now =
       Inr (True, LogSent, self\<lparr>last_send_time := Some now, total_sent := total_sent self + 1\<rparr>)"
  by (simp add: send_telemetry_cases response_ok_def)

lemma send_telemetry_raises:
  "post (telemetry_url self) data timeout = Raises e \<Longrightarrow>
     returned (send_telemetry self post data timeout now) = Some False
     \<and> client_after self (send_telemetry self post data timeout now)
         = self\<lparr>total_failed := total_failed self + 1\<rparr>"
  by (simp add: send_telemetry_cases returned_def client_after_def)

lemma send_telemetry_4xx_5xx:
  "post (telemetry_url self) data timeout = Response status_code \<Longrightarrow>
   400 \<le> status_code \<Longrightarrow> status_code < 600 \<Longrightarrow>
     returned (send_telemetry self post data timeout now) = Some False
     \<and> client_after self (send_telemetry self post data timeout now)
         = self\<lparr>last_send_time := Some now, total_failed := total_failed self + 1\<rparr>"
  by (simp add: send_telemetry_cases response_ok_def returned_def client_after_def)

text \<open>
  C6 (the code at a status that is not 2xx and below 400): on the response 304 the
  call returns true and counts the record as sent, although the docstring of
  \<open>send_telemetry\<close> promises true for a 2xx response and false otherwise.
\<close>

theorem send_telemetry_status_304:
  "send_telemetry (new_client ''eu.thingsboard.cloud'' ''token'' True)
     (\<lambda>url data timeout. Response 304) (JObject [(str ''a'', JNumber ''1'')]) 8 1001000000
   = Inr (True, LogSent,
      (new_client ''eu.thingsboard.cloud'' ''token'' True)
        \<lparr>last_send_time := Some 1001000000, total_sent := 1\<rparr>)"
  by (simp add: send_telemetry_cases response_ok_def new_client_def Let_def)

text \<open>
  C8 (as stated): a failed attempt leaves the last-send timestamp unchanged. On the
  response 500 the call returns false, and the timestamp of a client that had none is
  the time of that response.
\<close>

theorem last_send_time_on_500_counterexample:
  "returned (send_telemetry (new_client ''eu.thingsboard.cloud'' ''token'' True)
     (\<lambda>url data timeout. Response 500) (JObject [(str ''a'', JNumber ''1'')]) 8 1001000000)
     = Some False
   \<and> last_send_time (new_client ''eu.thingsboard.cloud'' ''token'' True) = None
   \<and> last_send_time (client_after (new_client ''eu.thingsboard.cloud'' ''token'' True)
       (send_telemetry (new_client ''eu.thingsboard.cloud'' ''token'' True)
         (\<lambda>url data timeout. Response 500) (JObject [(str ''a'', JNumber ''1'')]) 8 1001000000))
     = Some 1001000000"
  by (simp add: send_telemetry_cases response_ok_def new_client_def Let_def returned_def
      client_after_def)

text \<open>
  C8 (amended): the last-send timestamp is recorded exactly when the request returns a
  response, whatever its status; an attempt that ends in an exception or an interrupt
  leaves it unchanged. In particular every call that returns true records it.
\<close>

theorem send_telemetry_last_send_time:
  "last_send_time (client_after self (send_telemetry self post data timeout now))
     = (case post (telemetry_url self) data timeout of
          Response status_code \<Rightarrow> Some now
        | Raises e \<Rightarrow> last_send_time self
        | Interrupted \<Rightarrow> last_send_time self)
   \<and> (returned (send_telemetry self post data timeout now) = Some True \<longrightarrow>
        last_send_time (client_after self (send_telemetry self post data timeout now)) = Some now)"
  by (simp add: send_telemetry_cases client_after_def returned_def split: http_outcome.splits)

theorem send_telemetry_last_send_time_witness:
  "last_send_time (client_after
      ((new_client ''eu.thingsboard.cloud'' ''token'' True)\<lparr>last_send_time := Some 7\<rparr>)
      (send_telemetry
        ((new_client ''eu.thingsboard.cloud'' ''token'' True)\<lparr>last_send_time := Some 7\<rparr>)
        (\<lambda>url data timeout. Raises ReadTimeout) JNull 8 1001000000)) = Some 7
   \<and> last_send_time (client_after
      ((new_client ''eu.thingsboard.cloud'' ''token'' True)\<lparr>last_send_time := Some 7\<rparr>)
      (send_telemetry
        ((new_client ''eu.thingsboard.cloud'' ''token'' True)\<lparr>last_send_time := Some 7\<rparr>)
        (\<lambda>url data timeout. Response 200) JNull 8 1001000000)) = Some 1001000000
   \<and> last_send_time (client_after
      ((new_client ''eu.thingsboard.cloud'' ''token'' True)\<lparr>last_send_time := Some 7\<rparr>)
      (send_telemetry
        ((new_client ''eu.thingsboard.cloud'' ''token'' True)\<lparr>last_send_time := Some 7\<rparr>)
        (\<lambda>url data timeout. Response 404) JNull 8 1001000000)) = Some 1001000000"
  using send_telemetry_last_send_time
      [of "(new_client ''eu.thingsboard.cloud'' ''token'' True)\<lparr>last_send_time := Some 7\<rparr>"
          "\<lambda>url data timeout. Raises ReadTimeout" JNull 8 1001000000]
    send_telemetry_last_send_time
      [of "(new_client ''eu.thingsboard.cloud'' ''token'' True)\<lparr>last_send_time := Some 7\<rparr>"
          "\<lambda>url data timeout. Response 200" JNull 8 1001000000]
    send_telemetry_last_send_time
      [of "(new_client ''eu.thingsboard.cloud'' ''token'' True)\<lparr>last_send_time := Some 7\<rparr>"
          "\<lambda>url data timeout. Response 404" JNull 8 1001000000]
  by simp

section \<open>Properties of the monitoring loop\<close>

subsection \<open>The message counter\<close>

lemma wait_if_needed_cases:
  "wait_if_needed pf self now sleep finish = (r, rl) \<Longrightarrow>
     (r \<noteq> None \<and> rl = self) \<or> (r = None \<and> rl = self\<lparr>limiter_last_send_time := finish\<rparr>)"
  by (auto simp: wait_if_needed_def Let_def split: if_splits option.splits)

lemma for_json_objects_counters:
  "for_json_objects pf pp envs k records b = (r, b') \<Longrightarrow>
     message_count b' - message_count b = total_sent (tb_client b') - total_sent (tb_client b)
     \<and> data_processor b' = data_processor b
     \<and> serial_monitor b' = serial_monitor b
     \<and> (r = None \<longrightarrow>
          total_sent (tb_client b') + total_failed (tb_client b')
            = total_sent (tb_client b) + total_failed (tb_client b) + int (length records))"
proof (induction records arbitrary: k b)
  case Nil
  then show ?case by simp
next
  case (Cons data rest)
  obtain w rl where w: "wait_if_needed pf (rate_limiter b) (clock_start (envs k))
      (throttle_sleep (envs k)) (clock_finish (envs k)) = (w, rl)"
    by (cases "wait_if_needed pf (rate_limiter b) (clock_start (envs k))
      (throttle_sleep (envs k)) (clock_finish (envs k))")
  show ?case
  proof (cases w)
    case (Some x)
    with Cons.prems w show ?thesis by (auto simp: Let_def)
  next
    case None
    note wn = None
    define b1 where "b1 = b\<lparr>rate_limiter := rl\<rparr>"
    show ?thesis
    proof (cases "if pp then preview_print (envs k) else None")
      case (Some x)
      with Cons.prems w wn show ?thesis by (auto simp: Let_def)
    next
      case None
      note pn = None
      show ?thesis
      proof (cases "send_telemetry (tb_client b1) (post_call (envs k)) data 8
                      (response_time (envs k))")
        case (Inl x)
        with Cons.prems w wn pn show ?thesis by (auto simp: Let_def b1_def)
      next
        case (Inr res)
        obtain ok lg cl where res: "res = (ok, lg, cl)" by (cases res)
        note st = Inr [unfolded res]
        define b3 where "b3 = (if ok
            then b1\<lparr>tb_client := cl, message_count := message_count b1 + 1\<rparr>
            else b1\<lparr>tb_client := cl\<rparr>)"
        have c: "total_sent cl = total_sent (tb_client b) + (if ok then 1 else 0)"
          "total_failed cl = total_failed (tb_client b) + (if ok then 0 else 1)"
          using send_telemetry_counts [OF st] by (simp_all add: b1_def)
        have b3: "message_count b3 - message_count b = total_sent (tb_client b3) - total_sent (tb_client b)"
          "data_processor b3 = data_processor b" "serial_monitor b3 = serial_monitor b"
          "total_sent (tb_client b3) + total_failed (tb_client b3)
             = total_sent (tb_client b) + total_failed (tb_client b) + 1"
          using c by (auto simp: b3_def b1_def)
        show ?thesis
        proof (cases "result_print (envs k)")
          case (Some x)
          with Cons.prems w wn pn st have "r = Some x" "b' = b3"
            by (auto simp: Let_def b1_def b3_def)
          with b3 show ?thesis by simp
        next
          case None
          with Cons.prems w wn pn st
          have "for_json_objects pf pp envs (Suc k) rest b3 = (r, b')"
            by (auto simp: Let_def b1_def b3_def)
          from Cons.IH [OF this] b3 show ?thesis by auto
        qed
      qed
    qed
  qed
qed

text \<open>
  C7 (as stated): the counter grows by one for every delivery attempt. One record, the
  server answers 500: one attempt was made and counted as failed by the client, and
  the counter is still 0.
\<close>

theorem message_count_failed_send_counterexample:
  "fst (for_json_objects double_platform False (\<lambda>k. quiet_send 500) 0
     [JObject [(str ''a'', JNumber ''1'')]] example_bridge) = None
   \<and> total_failed (tb_client (snd (for_json_objects double_platform False (\<lambda>k. quiet_send 500) 0
     [JObject [(str ''a'', JNumber ''1'')]] example_bridge))) = 1
   \<and> message_count example_bridge = 0
   \<and> message_count (snd (for_json_objects double_platform False (\<lambda>k. quiet_send 500) 0
     [JObject [(str ''a'', JNumber ''1'')]] example_bridge)) = 0"
  by (simp add: quiet_send_def wait_if_needed_def send_telemetry_cases response_ok_def
      example_bridge_def new_client_def Let_def)


text \<open>
  C7 (amended): in the loop over the records of a tick, each record is throttled and
  then sent once; the counter grows by one exactly for the sends that return true, so
  it grows as the client's count of sent records does; when the loop runs to its end,
  the client has counted one attempt, sent or failed, for every record.
\<close>

theorem for_json_objects_message_count:
  "message_count (snd (for_json_objects pf pp envs k records b)) - message_count b
     = total_sent (tb_client (snd (for_json_objects pf pp envs k records b)))
       - total_sent (tb_client b)
   \<and> (fst (for_json_objects pf pp envs k records b) = None \<longrightarrow>
        total_sent (tb_client (snd (for_json_objects pf pp envs k records b)))
          + total_failed (tb_client (snd (for_json_objects pf pp envs k records b)))
        = total_sent (tb_client b) + total_failed (tb_client b) + int (length records))"
  using for_json_objects_counters [of pf pp envs k records b
      "fst (for_json_objects pf pp envs k records b)"
      "snd (for_json_objects pf pp envs k records b)"]
  by simp

lemma quiet_run:
  "for_json_objects double_platform False (\<lambda>k. quiet_send (if k = 0 then 200 else 500)) 0
     [JObject [(str ''a'', JNumber ''1'')], JObject [(str ''b'', JNumber ''2'')]] example_bridge
   = (None, example_bridge
       \<lparr>tb_client := (tb_client example_bridge)
          \<lparr>last_send_time := Some 1001000000, total_sent := 1, total_failed := 1\<rparr>,
        rate_limiter := (rate_limiter example_bridge)\<lparr>limiter_last_send_time := 1001\<rparr>,
        message_count := 1\<rparr>)"
  by (simp add: quiet_send_def wait_if_needed_def send_telemetry_cases response_ok_def
      example_bridge_def new_client_def Let_def)

theorem for_json_objects_message_count_witness:
  "fst (for_json_objects double_platform False (\<lambda>k. quiet_send (if k = 0 then 200 else 500)) 0
     [JObject [(str ''a'', JNumber ''1'')], JObject [(str ''b'', JNumber ''2'')]] example_bridge)
     = None
   \<and> message_count (snd (for_json_objects double_platform False
        (\<lambda>k. quiet_send (if k = 0 then 200 else 500)) 0
        [JObject [(str ''a'', JNumber ''1'')], JObject [(str ''b'', JNumber ''2'')]]
        example_bridge)) = 1
   \<and> total_sent (tb_client (snd (for_json_objects double_platform False
        (\<lambda>k. quiet_send (if k = 0 then 200 else 500)) 0
        [JObject [(str ''a'', JNumber ''1'')], JObject [(str ''b'', JNumber ''2'')]]
        example_bridge))) = 1
   \<and> total_failed (tb_client (snd (for_json_objects double_platform False
        (\<lambda>k. quiet_send (if k = 0 then 200 else 500)) 0
        [JObject [(str ''a'', JNumber ''1'')], JObject [(str ''b'', JNumber ''2'')]]
        example_bridge))) = 1"
  using for_json_objects_message_count [of double_platform False
      "\<lambda>k. quiet_send (if k = 0 then 200 else 500)" 0
      "[JObject [(str ''a'', JNumber ''1'')], JObject [(str ''b'', JNumber ''2'')]]"
      example_bridge]
  unfolding quiet_run
  by (simp add: example_bridge_def new_client_def)

subsection \<open>An exception in a tick\<close>

lemma add_chunk_a1:
  "add_chunk json_loads
     \<lparr>buffer = [], total_received = 0, total_parsed = 0, total_invalid = 0\<rparr> ''{\"a\":1}''
   = ([JObject [(str ''a'', JNumber ''1'')]],
      \<lparr>buffer = [], total_received = 1, total_parsed = 1, total_invalid = 0\<rparr>)"
  by code_simp

lemma add_chunk_partial:
  "add_chunk json_loads
     \<lparr>buffer = [], total_received = 0, total_parsed = 0, total_invalid = 0\<rparr> ''boot {\"a\":''
   = ([], \<lparr>buffer = ''boot {\"a\":'', total_received = 0, total_parsed = 0, total_invalid = 0\<rparr>)"
  by code_simp

lemma add_chunk_stale:
  "add_chunk json_loads
     \<lparr>buffer = ''boot {\"a\":'', total_received = 0, total_parsed = 0, total_invalid = 0\<rparr>
     ''{\"b\":2}''
   = ([], \<lparr>buffer = [], total_received = 1, total_parsed = 0, total_invalid = 1\<rparr>)"
  by code_simp

lemma add_chunk_cleared:
  "add_chunk json_loads
     (clear_buffer
        \<lparr>buffer = ''boot {\"a\":'', total_received = 0, total_parsed = 0, total_invalid = 0\<rparr>)
     ''{\"b\":2}''
   = ([JObject [(str ''b'', JNumber ''2'')]],
      \<lparr>buffer = [], total_received = 1, total_parsed = 1, total_invalid = 0\<rparr>)"
  by code_simp

lemma failing_print_tick_run:
  "tick json_loads double_platform False failing_print_tick example_bridge
   = (Some Exception, example_bridge
       \<lparr>data_processor :=
          \<lparr>buffer = [], total_received = 1, total_parsed = 1, total_invalid = 0\<rparr>,
        tb_client := (tb_client example_bridge)
          \<lparr>last_send_time := Some 1001000000, total_sent := 1\<rparr>,
        rate_limiter := (rate_limiter example_bridge)\<lparr>limiter_last_send_time := 1001\<rparr>,
        serial_monitor := \<lparr>last_text_length = 7, total_reads = 1\<rparr>,
        message_count := 1\<rparr>)"
  by (simp add: tick_def failing_print_tick_def get_new_content_def example_bridge_def
      new_monitor_def init_processor_def add_chunk_a1 quiet_send_def wait_if_needed_def
      send_telemetry_cases response_ok_def new_client_def Let_def)

text \<open>
  C2 (as stated): after an exception in a tick the loop goes on with the next tick.
  The \<open>print\<close> of the outcome raises in the first of two ticks: the loop is left, and
  the second tick is never read.
\<close>

theorem tick_exception_stops_loop_counterexample:
  "\<not> still_streaming
      (while_True json_loads double_platform False [failing_print_tick, next_tick] example_bridge)
   \<and> total_reads (serial_monitor (bridge_of
      (while_True json_loads double_platform False [failing_print_tick, next_tick]
         example_bridge))) = 1
   \<and> total_received (data_processor (bridge_of
      (while_True json_loads double_platform False [failing_print_tick, next_tick]
         example_bridge))) = 1"
  by (simp add: failing_print_tick_run)

text \<open>
  C2 (amended): an exception raised while a tick is processed is caught by the
  \<open>except Exception\<close> clause around the loop, which logs it; the loop has ended, no
  later tick is processed, and \<open>run_bridge\<close> goes on to its cleanup and returns true.
\<close>

theorem tick_exception_ends_loop:
  assumes "fst (tick loads pf pp env b) = Some Exception"
  shows "while_True loads pf pp (env # envs) b = ERROR_LOGGED (snd (tick loads pf pp env b))
    \<and> run_bridge_returns (while_True loads pf pp (env # envs) b) = Some True"
  using assms
  by (cases "tick loads pf pp env b") (simp add: run_bridge_returns_def)

theorem tick_exception_ends_loop_witness:
  "while_True json_loads double_platform False [failing_print_tick, next_tick] example_bridge
     = ERROR_LOGGED (snd (tick json_loads double_platform False failing_print_tick example_bridge))
   \<and> run_bridge_returns
       (while_True json_loads double_platform False [failing_print_tick, next_tick] example_bridge)
     = Some True"
proof -
  have h: "fst (tick json_loads double_platform False failing_print_tick example_bridge)
      = Some Exception"
    by (simp add: failing_print_tick_run)
  from tick_exception_ends_loop [OF h, of "[next_tick]"] show ?thesis .
qed

subsection \<open>A shorter text\<close>

text \<open>
  When the text read is shorter than the one before, the monitor starts again from its
  beginning, and the whole text is fed to the extractor as it is: no call of
  \<open>clear_buffer\<close> is made.
\<close>

lemma tick_on_shrink:
  assumes "serial_output env = Some txt" "length txt < last_text_length (serial_monitor b)"
    "txt \<noteq> []"
  shows "data_processor (snd (tick loads pf pp env b))
      = snd (add_chunk loads (data_processor b) txt)"
proof -
  have g: "get_new_content (serial_monitor b) (serial_output env)
      = (txt, (serial_monitor b)\<lparr>total_reads := total_reads (serial_monitor b) + 1,
                                last_text_length := length txt\<rparr>)"
    using assms by (simp add: get_new_content_def Let_def)
  obtain out dp where ac: "add_chunk loads (data_processor b) txt = (out, dp)"
    by (cases "add_chunk loads (data_processor b) txt")
  obtain r b2 where f: "for_json_objects pf pp (send_envs env) 0 out
      (b\<lparr>serial_monitor := (serial_monitor b)\<lparr>total_reads := total_reads (serial_monitor b) + 1,
                                last_text_length := length txt\<rparr>, data_processor := dp\<rparr>) = (r, b2)"
    by (cases "for_json_objects pf pp (send_envs env) 0 out
      (b\<lparr>serial_monitor := (serial_monitor b)\<lparr>total_reads := total_reads (serial_monitor b) + 1,
                                last_text_length := length txt\<rparr>, data_processor := dp\<rparr>)")
  from for_json_objects_counters [OF f] have "data_processor b2 = dp" by simp
  then show ?thesis
    using assms(3) g ac f by (simp add: tick_def Let_def split: option.splits)
qed

lemma partial_record_tick_run:
  "tick json_loads double_platform False partial_record_tick example_bridge
   = (None, example_bridge
       \<lparr>data_processor :=
          \<lparr>buffer = ''boot {\"a\":'', total_received = 0, total_parsed = 0, total_invalid = 0\<rparr>,
        serial_monitor := \<lparr>last_text_length = 10, total_reads = 1\<rparr>\<rparr>)"
  by (simp add: tick_def partial_record_tick_def get_new_content_def example_bridge_def
      new_monitor_def init_processor_def add_chunk_partial Let_def)

lemma after_reset_tick_run:
  "tick json_loads double_platform False after_reset_tick
     (example_bridge
       \<lparr>data_processor :=
          \<lparr>buffer = ''boot {\"a\":'', total_received = 0, total_parsed = 0, total_invalid = 0\<rparr>,
        serial_monitor := \<lparr>last_text_length = 10, total_reads = 1\<rparr>\<rparr>)
   = (None, example_bridge
       \<lparr>data_processor :=
          \<lparr>buffer = [], total_received = 1, total_parsed = 0, total_invalid = 1\<rparr>,
        serial_monitor := \<lparr>last_text_length = 7, total_reads = 2\<rparr>\<rparr>)"
  by (simp add: tick_def after_reset_tick_def get_new_content_def example_bridge_def
      add_chunk_stale Let_def)

text \<open>
  C3 (the code on a reset): the first tick leaves the partial record \<open>{"a":\<close> in the
  buffer; in the second the text is the shorter \<open>{"b":2}\<close>. The buffer is not cleared:
  the new record is appended to the stale text, the candidate \<open>{"a":{"b":2}\<close> is
  invalid, and nothing is sent. After \<open>clear_buffer\<close> the same text yields the record.
\<close>

theorem reset_feeds_stale_buffer:
  "buffer (data_processor (bridge_of
      (while_True json_loads double_platform False [partial_record_tick] example_bridge)))
     = ''boot {\"a\":''
   \<and> while_True json_loads double_platform False [partial_record_tick, after_reset_tick]
       example_bridge
     = STREAMING (example_bridge
         \<lparr>data_processor :=
            \<lparr>buffer = [], total_received = 1, total_parsed = 0, total_invalid = 1\<rparr>,
          serial_monitor := \<lparr>last_text_length = 7, total_reads = 2\<rparr>\<rparr>)
   \<and> fst (add_chunk json_loads
       (clear_buffer (data_processor (bridge_of
          (while_True json_loads double_platform False [partial_record_tick] example_bridge))))
       ''{\"b\":2}'')
     = [JObject [(str ''b'', JNumber ''2'')]]"
  by (simp add: partial_record_tick_run after_reset_tick_run add_chunk_cleared)

end
